theory Spec2Isabelle
  imports Main "HOL-Library.Word"
begin

unbundle bit_operations_syntax

text \<open>
  The Stackdriver span encoder of OpenCensus for Go: \<^verbatim>\<open>protoFromSpanData\<close> turns a
  recorded span into the wire span of the trace API, with \<^verbatim>\<open>copyAttributes\<close>,
  \<^verbatim>\<open>trunc\<close>, \<^verbatim>\<open>clip32\<close> and \<^verbatim>\<open>timestampProto\<close>. The functions are embedded as HOL
  functions; a panic is the result \<^term>\<open>Inl e\<close>. The claims C1 to C10 about the encoder
  are stated and settled in the second half of the theory.
\<close>

section \<open>Go values\<close>

text \<open>
  A Go \<^verbatim>\<open>string\<close> and a \<^verbatim>\<open>[]byte\<close> are sequences of bytes; \<^verbatim>\<open>len\<close> counts bytes.
  \<^verbatim>\<open>int\<close> is modelled by the mathematical integers: every \<^verbatim>\<open>int\<close> of this file is a
  length, an index, a counter bounded by a length, or a difference of two of these, so it
  never leaves the range of the machine type. \<^verbatim>\<open>int32\<close>, \<^verbatim>\<open>int64\<close> and \<^verbatim>\<open>rune\<close> are
  machine words, read as signed values by \<^const>\<open>sint\<close>.
\<close>

type_synonym byte = "8 word"
type_synonym gostring = "byte list"
type_synonym rune = "32 word"
type_synonym int32 = "32 word"
type_synonym int64 = "64 word"

text \<open>A run-time panic of the Go program.\<close>

datatype panic = SliceBoundsOutOfRange

section \<open>Package \<^verbatim>\<open>unicode/utf8\<close> of the Go standard library\<close>

text \<open>
  \<^verbatim>\<open>trunc\<close> calls \<^verbatim>\<open>utf8.DecodeLastRune\<close>. The package belongs to the Go distribution, not
  to the repository; its constants and the functions \<^verbatim>\<open>RuneStart\<close>, \<^verbatim>\<open>DecodeRune\<close> and
  \<^verbatim>\<open>DecodeLastRune\<close> are transcribed here from \<^verbatim>\<open>unicode/utf8/utf8.go\<close>.
\<close>

definition RuneError :: rune where "RuneError = 0xFFFD"
definition RuneSelf :: rune where "RuneSelf = 0x80"
definition UTFMax :: int where "UTFMax = 4"

definition maskx :: byte where "maskx = 0x3F"
definition mask2 :: byte where "mask2 = 0x1F"
definition mask3 :: byte where "mask3 = 0x0F"
definition mask4 :: byte where "mask4 = 0x07"

definition locb :: byte where "locb = 0x80"
definition hicb :: byte where "hicb = 0xBF"

definition xx :: byte where "xx = 0xF1"
definition as :: byte where "as = 0xF0"
definition s1 :: byte where "s1 = 0x02"
definition s2 :: byte where "s2 = 0x13"
definition s3 :: byte where "s3 = 0x03"
definition s4 :: byte where "s4 = 0x23"
definition s5 :: byte where "s5 = 0x34"
definition s6 :: byte where "s6 = 0x04"
definition s7 :: byte where "s7 = 0x44"

text \<open>The table \<^verbatim>\<open>first [256]uint8\<close>, one row of the Go source per range of first bytes.\<close>

definition first :: "byte \<Rightarrow> byte" where
  "first b =
     (if b < 0x80 then as
      else if b < 0xC2 then xx
      else if b < 0xE0 then s1
      else if b = 0xE0 then s2
      else if b < 0xED then s3
      else if b = 0xED then s4
      else if b < 0xF0 then s3
      else if b = 0xF0 then s5
      else if b < 0xF4 then s6
      else if b = 0xF4 then s7
      else xx)"

text \<open>The table \<^verbatim>\<open>acceptRanges [16]acceptRange\<close>: entries 5 to 15 are zero values.\<close>

definition acceptRanges :: "byte \<Rightarrow> byte \<times> byte" where
  "acceptRanges i =
     (if i = 0 then (locb, hicb)
      else if i = 1 then (0xA0, hicb)
      else if i = 2 then (locb, 0x9F)
      else if i = 3 then (0x90, hicb)
      else if i = 4 then (locb, 0x8F)
      else (0, 0))"

definition RuneStart :: "byte \<Rightarrow> bool" where
  "RuneStart b \<longleftrightarrow> b AND 0xC0 \<noteq> 0x80"

text \<open>
  \<^verbatim>\<open>DecodeRune(p []byte) (rune, int)\<close>. Each read \<^verbatim>\<open>p[i]\<close> is behind the test
  \<^verbatim>\<open>n < sz\<close> of the source, so no index is out of range.
\<close>

definition DecodeRune :: "byte list \<Rightarrow> rune \<times> int" where
  "DecodeRune p =
     (let n = int (length p) in
      if n < 1 then (RuneError, 0)
      else
        let p0 = p ! 0; x = first p0 in
        if x \<ge> as then
          (let mask = signed_drop_bit 31 (push_bit 31 (ucast x :: rune))
           in ((ucast (p ! 0) AND NOT mask) OR (RuneError AND mask), 1))
        else
          let sz = int (unat (x AND 7));
              accept = acceptRanges (drop_bit 4 x) in
          if n < sz then (RuneError, 1)
          else
            let b1 = p ! 1 in
            if b1 < fst accept \<or> snd accept < b1 then (RuneError, 1)
            else if sz \<le> 2 then
              (push_bit 6 (ucast (p0 AND mask2)) OR ucast (b1 AND maskx), 2)
            else
              let b2 = p ! 2 in
              if b2 < locb \<or> hicb < b2 then (RuneError, 1)
              else if sz \<le> 3 then
                (push_bit 12 (ucast (p0 AND mask3)) OR push_bit 6 (ucast (b1 AND maskx))
                   OR ucast (b2 AND maskx), 3)
              else
                let b3 = p ! 3 in
                if b3 < locb \<or> hicb < b3 then (RuneError, 1)
                else
                  (push_bit 18 (ucast (p0 AND mask4)) OR push_bit 12 (ucast (b1 AND maskx))
                     OR push_bit 6 (ucast (b2 AND maskx)) OR ucast (b3 AND maskx), 4))"

text \<open>
  The backwards scan of \<^verbatim>\<open>DecodeLastRune\<close>,
  \<^verbatim>\<open>for start--; start >= lim; start-- { if RuneStart(p[start]) { break } }\<close>,
  entered after the first \<^verbatim>\<open>start--\<close>; it returns the final \<^verbatim>\<open>start\<close>.
\<close>

function scanBack :: "byte list \<Rightarrow> int \<Rightarrow> int \<Rightarrow> int" where
  "scanBack p start lim =
     (if start \<ge> lim then
        (if RuneStart (p ! nat start) then start else scanBack p (start - 1) lim)
      else start)"
  by pat_completeness auto
termination
  by (relation "measure (\<lambda>(p, start, lim). nat (start - lim + 1))") auto

definition DecodeLastRune :: "byte list \<Rightarrow> rune \<times> int" where
  "DecodeLastRune p =
     (let end = int (length p) in
      if end = 0 then (RuneError, 0)
      else
        let start = end - 1;
            r = (ucast (p ! nat start) :: rune) in
        if r <s RuneSelf then (r, 1)
        else
          let lim = end - UTFMax;
              lim = (if lim < 0 then 0 else lim);
              start = scanBack p (start - 1) lim;
              start = (if start < 0 then 0 else start);
              (r, size') = DecodeRune (drop (nat start) p)
          in if start + size' \<noteq> end then (RuneError, 1) else (r, size'))"

section \<open>\<^verbatim>\<open>clip32\<close> and \<^verbatim>\<open>trunc\<close>\<close>

text \<open>
  \<^verbatim>\<open>math.MinInt32\<close> and \<^verbatim>\<open>math.MaxInt32\<close>, as untyped constants compared with an \<^verbatim>\<open>int\<close>.
\<close>

definition MinInt32 :: int where "MinInt32 = - (2 ^ 31)"
definition MaxInt32 :: int where "MaxInt32 = 2 ^ 31 - 1"

text \<open>\<^verbatim>\<open>func clip32(x int) int32\<close>; the conversion \<^verbatim>\<open>int32(x)\<close> keeps the low 32 bits.\<close>

definition clip32 :: "int \<Rightarrow> int32" where
  "clip32 x =
     (if x < MinInt32 then word_of_int MinInt32
      else if x > MaxInt32 then word_of_int MaxInt32
      else word_of_int x)"

record TruncatableString =
  Value :: gostring
  TruncatedByteCount :: int32

text \<open>
  The loop of \<^verbatim>\<open>trunc\<close>: \<^verbatim>\<open>for { r, size := utf8.DecodeLastRune(b);
  if r == utf8.RuneError && size == 1 { b = b[:len(b)-1] } else { break } }\<close>.
  The slice expression \<^verbatim>\<open>b[:len(b)-1]\<close> panics on an empty \<^verbatim>\<open>b\<close>.
\<close>

function trimLoop :: "byte list \<Rightarrow> panic + byte list" where
  "trimLoop b =
     (case DecodeLastRune b of
        (r, size') \<Rightarrow>
          if r = RuneError \<and> size' = 1 then
            (if int (length b) - 1 < 0 then Inl SliceBoundsOutOfRange
             else trimLoop (take (nat (int (length b) - 1)) b))
          else Inr b)"
  by pat_completeness auto
termination
proof (relation "measure length")
  show "wf (measure length)" by simp
next
  fix b :: "byte list" and x :: "rune \<times> int" and r :: rune and size' :: int
  assume "\<not> int (length b) - 1 < 0"
  then have "nat (int (length b) - 1) < length b" by linarith
  then show "(take (nat (int (length b) - 1)) b, b) \<in> measure length" by simp
qed

text \<open>
  \<^verbatim>\<open>func trunc(s string, limit int) *tracepb.TruncatableString\<close>. The slice expression
  \<^verbatim>\<open>s[:limit]\<close> is reached only when \<^verbatim>\<open>len(s) > limit\<close>; it panics when \<^verbatim>\<open>limit\<close> is
  negative.
\<close>

definition trunc :: "gostring \<Rightarrow> int \<Rightarrow> panic + TruncatableString" where
  "trunc s limit =
     (if int (length s) > limit then
        (if limit < 0 then Inl SliceBoundsOutOfRange
         else
           case trimLoop (take (nat limit) s) of
             Inl e \<Rightarrow> Inl e
           | Inr b \<Rightarrow>
               Inr \<lparr>Value = b,
                    TruncatedByteCount = clip32 (int (length s) - int (length b))\<rparr>)
      else Inr \<lparr>Value = s, TruncatedByteCount = 0\<rparr>)"

section \<open>Package \<^verbatim>\<open>trace\<close>: the span record\<close>

text \<open>
  Modelled from the spec: the declarations of \<^verbatim>\<open>trace.SpanData\<close> and of the types of its
  fields (package \<^verbatim>\<open>go.opencensus.io/trace\<close>) are not among the source files. The records
  below follow the data model of the specification (identifiers, name, times, status,
  attributes, annotations, message events, links, an optional stack trace) and have the
  fields that \<^verbatim>\<open>protoFromSpanData\<close> reads, with the types that its expressions require.

  A dynamically typed attribute value (\<^verbatim>\<open>interface{}\<close>) is seen by the type switch of
  \<^verbatim>\<open>copyAttributes\<close> as a \<^verbatim>\<open>bool\<close>, an \<^verbatim>\<open>int64\<close>, a \<^verbatim>\<open>string\<close> or a value of any
  other type. A \<^verbatim>\<open>map[string]interface{}\<close> is the list of its entries in the order in
  which \<^verbatim>\<open>range\<close> visits them; the keys of a map are pairwise distinct.
\<close>

datatype interface =
    IsBool bool
  | IsInt64 int64
  | IsString gostring
  | IsOther

type_synonym attributes = "(gostring \<times> interface) list"

text \<open>A \<^verbatim>\<open>time.Time\<close>, observed through \<^verbatim>\<open>t.Unix()\<close> and \<^verbatim>\<open>t.Nanosecond()\<close>.\<close>

record Time =
  Unix :: int64
  Nanosecond :: int

record Annotation =
  a_Time :: Time
  a_Message :: gostring
  a_Attributes :: attributes

record MessageEvent =
  e_Time :: Time
  e_EventType :: int32
  e_MessageID :: int64
  e_UncompressedByteSize :: int64
  e_CompressedByteSize :: int64

record Link =
  l_TraceID :: "byte list"
  l_SpanID :: "byte list"
  l_Type :: int32
  l_Attributes :: attributes

record SpanContext =
  TraceID :: "byte list"
  SpanID :: "byte list"

record Status =
  Code :: int32
  Message :: gostring

text \<open>
  Modelled from the spec: the optional captured stack trace is an ordered sequence of call
  frames (function name, file name, line number). In the source the field
  \<^verbatim>\<open>StackTrace []uintptr\<close> holds program counters, which \<^verbatim>\<open>runtime.CallersFrames\<close> of the
  Go runtime resolves to values of \<^verbatim>\<open>runtime.Frame\<close>; the model keeps, for a non-nil
  \<^verbatim>\<open>StackTrace\<close>, the sequence of frames that the iterator has to deliver.
\<close>

record Frame =
  Function :: gostring
  File :: gostring
  Line :: int

record SpanData =
  s_SpanContext :: SpanContext
  s_ParentSpanID :: "byte list"
  s_Name :: gostring
  s_StartTime :: Time
  s_EndTime :: Time
  s_Attributes :: attributes
  s_Annotations :: "Annotation list"
  s_MessageEvents :: "MessageEvent list"
  s_Status :: Status
  s_StackTrace :: "Frame list option"
  s_Links :: "Link list"
  s_HasRemoteParent :: bool

text \<open>
  \<^verbatim>\<open>TraceID\<close> is \<^verbatim>\<open>[16]byte\<close> and \<^verbatim>\<open>SpanID\<close> is \<^verbatim>\<open>[8]byte\<close>; the \<^verbatim>\<open>String\<close> method
  of each prints the bytes as lower-case hexadecimal digits.
\<close>

definition hexDigit :: "byte \<Rightarrow> byte" where
  "hexDigit d = (if d < 10 then 0x30 + d else 0x61 + (d - 10))"

definition hexString :: "byte list \<Rightarrow> gostring" where
  "hexString bs = concat (map (\<lambda>b. [hexDigit (drop_bit 4 b), hexDigit (b AND 0x0F)]) bs)"

definition zeroSpanID :: "byte list" where
  "zeroSpanID = replicate 8 0"

text \<open>The bytes of a string literal of the source.\<close>

definition bytes :: "string \<Rightarrow> gostring" where
  "bytes cs = map of_char cs"

text \<open>
  \<^verbatim>\<open>(*runtime.Frames).Next\<close>: the next frame, whether a further call will deliver another
  one, and the iterator after the call. When there is no frame at all it returns the zero
  \<^verbatim>\<open>Frame\<close> and \<^verbatim>\<open>false\<close>.
\<close>

definition zeroFrame :: Frame where
  "zeroFrame = \<lparr>Function = [], File = [], Line = 0\<rparr>"

fun Next :: "Frame list \<Rightarrow> Frame \<times> bool \<times> Frame list" where
  "Next [] = (zeroFrame, False, [])"
| "Next (f # fs) = (f, fs \<noteq> [], fs)"

section \<open>Package \<^verbatim>\<open>tracepb\<close>: the wire span\<close>

text \<open>
  The protocol-buffer types generated for the Stackdriver Trace API (package
  \<^verbatim>\<open>google.golang.org/genproto/googleapis/devtools/cloudtrace/v2\<close>), with the fields
  that \<^verbatim>\<open>protoFromSpanData\<close> sets. A pointer that the function may leave \<^verbatim>\<open>nil\<close> is an
  \<^typ>\<open>'a option\<close>. The status of the wire span, \<^verbatim>\<open>statuspb.Status\<close>, is set from the two
  fields \<^verbatim>\<open>Code\<close> and \<^verbatim>\<open>Message\<close> of \<^verbatim>\<open>trace.Status\<close> and is the same record here.
\<close>

record Timestamp =
  Seconds :: int64
  Nanos :: int32

datatype AttributeValue =
    AttributeValue_BoolValue bool
  | AttributeValue_IntValue int64
  | AttributeValue_StringValue TruncatableString

record Span_Attributes =
  AttributeMap :: "(gostring \<rightharpoonup> AttributeValue) option"
  DroppedAttributesCount :: int32

record Span_TimeEvent_Annotation =
  Description :: TruncatableString
  an_Attributes :: "Span_Attributes option"

record Span_TimeEvent_MessageEvent =
  me_Type :: int32
  me_Id :: int64
  me_UncompressedSizeBytes :: int64
  me_CompressedSizeBytes :: int64

text \<open>
  The field \<^verbatim>\<open>Value\<close> of a \<^verbatim>\<open>Span_TimeEvent\<close> is a oneof: the wrapper
  \<^verbatim>\<open>Span_TimeEvent_Annotation_\<close> or the wrapper \<^verbatim>\<open>Span_TimeEvent_MessageEvent_\<close>.
\<close>

datatype Span_TimeEvent_Value =
    Value_Annotation Span_TimeEvent_Annotation
  | Value_MessageEvent Span_TimeEvent_MessageEvent

record Span_TimeEvent =
  te_Time :: Timestamp
  te_Value :: Span_TimeEvent_Value

record Span_TimeEvents =
  TimeEvent :: "Span_TimeEvent list"
  DroppedAnnotationsCount :: int32
  DroppedMessageEventsCount :: int32

record StackTrace_StackFrame =
  FunctionName :: TruncatableString
  FileName :: TruncatableString
  LineNumber :: int64

record StackTrace_StackFrames =
  sf_Frame :: "StackTrace_StackFrame list"
  DroppedFramesCount :: int32

record StackTrace =
  StackFrames :: StackTrace_StackFrames

record Span_Link =
  TraceId :: gostring
  ln_SpanId :: gostring
  ln_Type :: int32
  ln_Attributes :: "Span_Attributes option"

record Span_Links =
  Link :: "Span_Link list"

record Span =
  sp_Name :: gostring
  sp_SpanId :: gostring
  sp_ParentSpanId :: gostring
  sp_DisplayName :: TruncatableString
  sp_StartTime :: Timestamp
  sp_EndTime :: Timestamp
  sp_Attributes :: "Span_Attributes option"
  sp_StackTrace :: "StackTrace option"
  sp_TimeEvents :: "Span_TimeEvents option"
  sp_Links :: "Span_Links option"
  sp_Status :: "Status option"
  sp_SameProcessAsParentSpan :: bool

section \<open>The encoder\<close>

definition maxAnnotationEventsPerSpan :: int where
  "maxAnnotationEventsPerSpan = 32"

definition maxMessageEventsPerSpan :: int where
  "maxMessageEventsPerSpan = 128"

text \<open>\<^verbatim>\<open>func timestampProto(t time.Time) *timestamppb.Timestamp\<close>.\<close>

definition timestampProto :: "Time \<Rightarrow> Timestamp" where
  "timestampProto t = \<lparr>Seconds = Unix t, Nanos = word_of_int (Nanosecond t)\<rparr>"

text \<open>
  The type switch of \<^verbatim>\<open>copyAttributes\<close>: the \<^verbatim>\<open>AttributeValue\<close> built for a value, or
  \<^const>\<open>None\<close> where the \<^verbatim>\<open>default\<close> case executes \<^verbatim>\<open>continue\<close>.
\<close>

definition attributeValue :: "interface \<Rightarrow> panic + AttributeValue option" where
  "attributeValue v =
     (case v of
        IsBool b \<Rightarrow> Inr (Some (AttributeValue_BoolValue b))
      | IsInt64 i \<Rightarrow> Inr (Some (AttributeValue_IntValue i))
      | IsString str \<Rightarrow>
          (case trunc str 256 of
             Inl e \<Rightarrow> Inl e
           | Inr t \<Rightarrow> Inr (Some (AttributeValue_StringValue t)))
      | IsOther \<Rightarrow> Inr None)"

text \<open>
  The loop \<^verbatim>\<open>for key, value := range in\<close> of \<^verbatim>\<open>copyAttributes\<close>, on the entries still to
  visit, the attribute map written so far and the counter \<^verbatim>\<open>var dropped int32\<close>.
\<close>

fun copyAttributesLoop ::
  "attributes \<Rightarrow> (gostring \<rightharpoonup> AttributeValue) \<Rightarrow> int32 \<Rightarrow>
   panic + (gostring \<rightharpoonup> AttributeValue) \<times> int32" where
  "copyAttributesLoop [] m dropped = Inr (m, dropped)"
| "copyAttributesLoop ((key, v) # rest) m dropped =
     (case attributeValue v of
        Inl e \<Rightarrow> Inl e
      | Inr None \<Rightarrow> copyAttributesLoop rest m dropped
      | Inr (Some av) \<Rightarrow>
          if int (length key) > 128 then copyAttributesLoop rest m (dropped + 1)
          else copyAttributesLoop rest (m(key \<mapsto> av)) dropped)"

text \<open>
  \<^verbatim>\<open>func copyAttributes(out **tracepb.Span_Attributes, in map[string]interface{})\<close>:
  the argument is \<^verbatim>\<open>*out\<close> before the call, the result is \<^verbatim>\<open>*out\<close> after it.
\<close>

definition copyAttributes :: "Span_Attributes option \<Rightarrow> attributes \<Rightarrow> panic + Span_Attributes option" where
  "copyAttributes out inp =
     (if length inp = 0 then Inr out
      else
        let out1 = (case out of
                      None \<Rightarrow> \<lparr>AttributeMap = None, DroppedAttributesCount = 0\<rparr>
                    | Some a \<Rightarrow> a);
            m = (case AttributeMap out1 of None \<Rightarrow> Map.empty | Some m \<Rightarrow> m)
        in case copyAttributesLoop inp m 0 of
             Inl e \<Rightarrow> Inl e
           | Inr (m', dropped) \<Rightarrow>
               Inr (Some (out1\<lparr>AttributeMap := Some m', DroppedAttributesCount := dropped\<rparr>)))"

text \<open>
  The loop \<^verbatim>\<open>for i, a := range as\<close> of \<^verbatim>\<open>protoFromSpanData\<close>. The arguments are the
  annotations from index \<^verbatim>\<open>i\<close> on, the index \<^verbatim>\<open>i\<close>, \<^verbatim>\<open>len(as)\<close>, and the variables
  \<^verbatim>\<open>sp.TimeEvents\<close>, \<^verbatim>\<open>annotations\<close> and \<^verbatim>\<open>droppedAnnotationsCount\<close>, which are returned.
\<close>

fun annotationsLoop ::
  "Annotation list \<Rightarrow> int \<Rightarrow> int \<Rightarrow> Span_TimeEvents option \<Rightarrow> int \<Rightarrow> int \<Rightarrow>
   panic + Span_TimeEvents option \<times> int \<times> int" where
  "annotationsLoop [] i len_as timeEvents annotations droppedAnnotationsCount =
     Inr (timeEvents, annotations, droppedAnnotationsCount)"
| "annotationsLoop (a # rest) i len_as timeEvents annotations droppedAnnotationsCount =
     (if annotations \<ge> maxAnnotationEventsPerSpan then
        Inr (timeEvents, annotations, len_as - i)
      else
        case trunc (a_Message a) 256 of
          Inl e \<Rightarrow> Inl e
        | Inr description \<Rightarrow>
            (case copyAttributes None (a_Attributes a) of
               Inl e \<Rightarrow> Inl e
             | Inr attrs \<Rightarrow>
                 let annotation = \<lparr>Description = description, an_Attributes = attrs\<rparr>;
                     event = \<lparr>te_Time = timestampProto (a_Time a),
                              te_Value = Value_Annotation annotation\<rparr>;
                     tes = (case timeEvents of
                              None \<Rightarrow> \<lparr>TimeEvent = [], DroppedAnnotationsCount = 0,
                                        DroppedMessageEventsCount = 0\<rparr>
                            | Some t \<Rightarrow> t)
                 in annotationsLoop rest (i + 1) len_as
                      (Some (tes\<lparr>TimeEvent := TimeEvent tes @ [event]\<rparr>))
                      (annotations + 1) droppedAnnotationsCount))"

text \<open>
  The loop \<^verbatim>\<open>for i, e := range es\<close>, with the variables \<^verbatim>\<open>sp.TimeEvents\<close>,
  \<^verbatim>\<open>messageEvents\<close> and \<^verbatim>\<open>droppedMessageEventsCount\<close>.
\<close>

fun messageEventsLoop ::
  "MessageEvent list \<Rightarrow> int \<Rightarrow> int \<Rightarrow> Span_TimeEvents option \<Rightarrow> int \<Rightarrow> int \<Rightarrow>
   Span_TimeEvents option \<times> int \<times> int" where
  "messageEventsLoop [] i len_es timeEvents messageEvents droppedMessageEventsCount =
     (timeEvents, messageEvents, droppedMessageEventsCount)"
| "messageEventsLoop (e # rest) i len_es timeEvents messageEvents droppedMessageEventsCount =
     (if messageEvents \<ge> maxMessageEventsPerSpan then
        (timeEvents, messageEvents, len_es - i)
      else
        let tes = (case timeEvents of
                     None \<Rightarrow> \<lparr>TimeEvent = [], DroppedAnnotationsCount = 0,
                               DroppedMessageEventsCount = 0\<rparr>
                   | Some t \<Rightarrow> t);
            event = \<lparr>te_Time = timestampProto (e_Time e),
                     te_Value = Value_MessageEvent
                       \<lparr>me_Type = e_EventType e, me_Id = e_MessageID e,
                        me_UncompressedSizeBytes = e_UncompressedByteSize e,
                        me_CompressedSizeBytes = e_CompressedByteSize e\<rparr>\<rparr>
        in messageEventsLoop rest (i + 1) len_es
             (Some (tes\<lparr>TimeEvent := TimeEvent tes @ [event]\<rparr>))
             (messageEvents + 1) droppedMessageEventsCount)"

text \<open>
  Lines 104 to 155 of the source: both loops, then the two dropped counts, which are
  written only when one of them is not zero. The result is \<^verbatim>\<open>sp.TimeEvents\<close> together
  with the local variables \<^verbatim>\<open>droppedAnnotationsCount\<close> and \<^verbatim>\<open>droppedMessageEventsCount\<close>.
\<close>

definition timeEventsOf ::
  "Annotation list \<Rightarrow> MessageEvent list \<Rightarrow> panic + Span_TimeEvents option \<times> int \<times> int" where
  "timeEventsOf as' es =
     (case annotationsLoop as' 0 (int (length as')) None 0 0 of
        Inl e \<Rightarrow> Inl e
      | Inr (timeEvents, annotations, droppedAnnotationsCount) \<Rightarrow>
          (case messageEventsLoop es 0 (int (length es)) timeEvents 0 0 of
             (timeEvents, messageEvents, droppedMessageEventsCount) \<Rightarrow>
               if droppedAnnotationsCount \<noteq> 0 \<or> droppedMessageEventsCount \<noteq> 0 then
                 (let tes = (case timeEvents of
                               None \<Rightarrow> \<lparr>TimeEvent = [], DroppedAnnotationsCount = 0,
                                         DroppedMessageEventsCount = 0\<rparr>
                             | Some t \<Rightarrow> t)
                  in Inr (Some (tes\<lparr>DroppedAnnotationsCount := clip32 droppedAnnotationsCount,
                                     DroppedMessageEventsCount := clip32 droppedMessageEventsCount\<rparr>),
                          droppedAnnotationsCount, droppedMessageEventsCount))
               else Inr (timeEvents, droppedAnnotationsCount, droppedMessageEventsCount)))"

text \<open>
  The loop \<^verbatim>\<open>for { frame, more := frames.Next(); ...; if !more { break } }\<close>, with the
  iterator, \<^verbatim>\<open>sf.Frame\<close> and \<^verbatim>\<open>dropped\<close>.
\<close>

function framesLoop ::
  "Frame list \<Rightarrow> StackTrace_StackFrame list \<Rightarrow> int \<Rightarrow>
   panic + StackTrace_StackFrame list \<times> int" where
  "framesLoop frames sf dropped =
     (case Next frames of
        (frame, more', frames') \<Rightarrow>
          (case (if int (length sf) \<ge> 128 then Inr (sf, dropped + 1)
                 else
                   case trunc (Function frame) 1024 of
                     Inl e \<Rightarrow> Inl e
                   | Inr functionName \<Rightarrow>
                       (case trunc (File frame) 256 of
                          Inl e \<Rightarrow> Inl e
                        | Inr fileName \<Rightarrow>
                            Inr (sf @ [\<lparr>FunctionName = functionName, FileName = fileName,
                                        LineNumber = word_of_int (Line frame)\<rparr>], dropped))) of
             Inl e \<Rightarrow> Inl e
           | Inr (sf', dropped') \<Rightarrow>
               if \<not> more' then Inr (sf', dropped') else framesLoop frames' sf' dropped'))"
  by pat_completeness auto
termination
  apply (relation "measure (\<lambda>(frames, sf, dropped). length frames)")
   apply simp
  subgoal for frames sf dropped x frame y more' frames'
    by (cases frames) auto
  done

text \<open>Lines 157 to 179 of the source: the stack trace of the wire span.\<close>

definition stackTraceOf :: "Frame list option \<Rightarrow> panic + StackTrace option" where
  "stackTraceOf pcs =
     (case pcs of
        None \<Rightarrow> Inr None
      | Some frames \<Rightarrow>
          (case framesLoop frames [] 0 of
             Inl e \<Rightarrow> Inl e
           | Inr (sf, dropped) \<Rightarrow>
               Inr (Some \<lparr>StackFrames =
                 \<lparr>sf_Frame = sf, DroppedFramesCount = clip32 dropped\<rparr>\<rparr>)))"

text \<open>
  The loop \<^verbatim>\<open>for _, l := range s.Links\<close>, with \<^verbatim>\<open>sp.Links.Link\<close>; the verb \<^verbatim>\<open>%s\<close> prints
  a \<^verbatim>\<open>TraceID\<close> through its \<^verbatim>\<open>String\<close> method.
\<close>

fun linksLoop :: "Link list \<Rightarrow> gostring \<Rightarrow> Span_Link list \<Rightarrow> panic + Span_Link list" where
  "linksLoop [] projectID links = Inr links"
| "linksLoop (l # rest) projectID links =
     (case copyAttributes None (l_Attributes l) of
        Inl e \<Rightarrow> Inl e
      | Inr attrs \<Rightarrow>
          linksLoop rest projectID
            (links @ [\<lparr>TraceId = bytes ''projects/'' @ projectID @ bytes ''/traces/''
                                   @ hexString (l_TraceID l),
                       ln_SpanId = hexString (l_SpanID l),
                       ln_Type = l_Type l,
                       ln_Attributes = attrs\<rparr>]))"

text \<open>Lines 181 to 193 of the source: the links of the wire span.\<close>

definition linksOf :: "Link list \<Rightarrow> gostring \<Rightarrow> panic + Span_Links option" where
  "linksOf ls projectID =
     (if length ls > 0 then
        (case linksLoop ls projectID [] of
           Inl e \<Rightarrow> Inl e
         | Inr links \<Rightarrow> Inr (Some \<lparr>Link = links\<rparr>))
      else Inr None)"

text \<open>
  \<^verbatim>\<open>func protoFromSpanData(s *trace.SpanData, projectID string) *tracepb.Span\<close>.
  The result is \<^term>\<open>Inr None\<close> for the \<^verbatim>\<open>nil\<close> pointer, \<^term>\<open>Inr (Some sp)\<close> for a wire
  span and \<^term>\<open>Inl e\<close> for a panic.
\<close>

definition protoFromSpanData :: "SpanData option \<Rightarrow> gostring \<Rightarrow> panic + Span option" where
  "protoFromSpanData s' projectID =
     (case s' of
        None \<Rightarrow> Inr None
      | Some s \<Rightarrow>
          let traceIDString = hexString (TraceID (s_SpanContext s));
              spanIDString = hexString (SpanID (s_SpanContext s))
          in
          case trunc (s_Name s) 128 of
            Inl e \<Rightarrow> Inl e
          | Inr displayName \<Rightarrow>
          let sp = \<lparr>sp_Name = bytes ''projects/'' @ projectID @ bytes ''/traces/''
                               @ traceIDString @ bytes ''/spans/'' @ spanIDString,
                    sp_SpanId = spanIDString,
                    sp_ParentSpanId = [],
                    sp_DisplayName = displayName,
                    sp_StartTime = timestampProto (s_StartTime s),
                    sp_EndTime = timestampProto (s_EndTime s),
                    sp_Attributes = None,
                    sp_StackTrace = None,
                    sp_TimeEvents = None,
                    sp_Links = None,
                    sp_Status = None,
                    sp_SameProcessAsParentSpan = (\<not> s_HasRemoteParent s)\<rparr>;
              sp = (if s_ParentSpanID s \<noteq> zeroSpanID
                    then sp\<lparr>sp_ParentSpanId := hexString (s_ParentSpanID s)\<rparr> else sp);
              sp = (if Code (s_Status s) \<noteq> 0 \<or> Message (s_Status s) \<noteq> []
                    then sp\<lparr>sp_Status := Some \<lparr>Code = Code (s_Status s),
                                                 Message = Message (s_Status s)\<rparr>\<rparr>
                    else sp)
          in
          case copyAttributes (sp_Attributes sp) (s_Attributes s) of
            Inl e \<Rightarrow> Inl e
          | Inr attrs \<Rightarrow>
          case timeEventsOf (s_Annotations s) (s_MessageEvents s) of
            Inl e \<Rightarrow> Inl e
          | Inr (timeEvents, droppedAnnotationsCount, droppedMessageEventsCount) \<Rightarrow>
          case stackTraceOf (s_StackTrace s) of
            Inl e \<Rightarrow> Inl e
          | Inr stackTrace \<Rightarrow>
          case linksOf (s_Links s) projectID of
            Inl e \<Rightarrow> Inl e
          | Inr links \<Rightarrow>
              Inr (Some (sp\<lparr>sp_Attributes := attrs, sp_TimeEvents := timeEvents,
                            sp_StackTrace := stackTrace, sp_Links := links\<rparr>)))"

section \<open>Notions used to state the properties\<close>

text \<open>
  The test of the loop of \<^verbatim>\<open>trunc\<close>, \<^verbatim>\<open>r == utf8.RuneError && size == 1\<close>, as a
  predicate on the bytes kept so far: the decoder reports that they end in an encoding
  error of width 1.
\<close>

definition invalidTail :: "byte list \<Rightarrow> bool" where
  "invalidTail b \<longleftrightarrow> (case DecodeLastRune b of (r, size') \<Rightarrow> r = RuneError \<and> size' = 1)"

text \<open>
  An incomplete multi-byte character, in the words of the specification and of the UTF-8
  format, not of the decoder: a byte \<^verbatim>\<open>10xxxxxx\<close> continues a character; a byte
  \<^verbatim>\<open>110xxxxx\<close>, \<^verbatim>\<open>1110xxxx\<close> or \<^verbatim>\<open>11110xxx\<close> announces a character of 2, 3 or 4 bytes.
  The final bytes of \<open>b\<close> form an incomplete character when they are such a leading byte
  and fewer continuation bytes than it announces.
\<close>

definition continuationByte :: "byte \<Rightarrow> bool" where
  "continuationByte b \<longleftrightarrow> 0x80 \<le> b \<and> b \<le> 0xBF"

definition sequenceLength :: "byte \<Rightarrow> nat" where
  "sequenceLength b =
     (if 0xC0 \<le> b \<and> b \<le> 0xDF then 2
      else if 0xE0 \<le> b \<and> b \<le> 0xEF then 3
      else if 0xF0 \<le> b \<and> b \<le> 0xF7 then 4
      else 0)"

definition incompleteTail :: "byte list \<Rightarrow> bool" where
  "incompleteTail b \<longleftrightarrow>
     (let n = length b in
      (1 \<le> n \<and> 1 < sequenceLength (b ! (n - 1))) \<or>
      (2 \<le> n \<and> 2 < sequenceLength (b ! (n - 2)) \<and> continuationByte (b ! (n - 1))) \<or>
      (3 \<le> n \<and> 3 < sequenceLength (b ! (n - 3)) \<and> continuationByte (b ! (n - 2))
         \<and> continuationByte (b ! (n - 1))))"

text \<open>What \<^const>\<open>trunc\<close> returns when it does not panic.\<close>

definition truncated :: "gostring \<Rightarrow> int \<Rightarrow> TruncatableString" where
  "truncated s limit = projr (trunc s limit)"

text \<open>
  The dynamic types that the type switch of \<^verbatim>\<open>copyAttributes\<close> converts: \<^verbatim>\<open>bool\<close>,
  \<^verbatim>\<open>int64\<close> and \<^verbatim>\<open>string\<close>.
\<close>

definition supportedType :: "interface \<Rightarrow> bool" where
  "supportedType v \<longleftrightarrow>
     (case v of IsBool b \<Rightarrow> True | IsInt64 i \<Rightarrow> True | IsString str \<Rightarrow> True | IsOther \<Rightarrow> False)"

text \<open>
  The entries of an attribute map that the loop of \<^verbatim>\<open>copyAttributes\<close> rejects for the
  length of their key, and those it stores.
\<close>

definition lengthRejected :: "attributes \<Rightarrow> attributes" where
  "lengthRejected inp = filter (\<lambda>(key, v). supportedType v \<and> 128 < length key) inp"

definition stored :: "attributes \<Rightarrow> attributes" where
  "stored inp = filter (\<lambda>(key, v). supportedType v \<and> length key \<le> 128) inp"

text \<open>
  The attribute map that \<^verbatim>\<open>copyAttributes\<close> starts from: that of \<^verbatim>\<open>*out\<close>, empty when
  \<^verbatim>\<open>*out\<close> or its map is \<^verbatim>\<open>nil\<close>.
\<close>

definition attributeMapOf :: "Span_Attributes option \<Rightarrow> (gostring \<rightharpoonup> AttributeValue)" where
  "attributeMapOf out =
     (case out of
        None \<Rightarrow> Map.empty
      | Some a \<Rightarrow> (case AttributeMap a of None \<Rightarrow> Map.empty | Some m \<Rightarrow> m))"

text \<open>What \<^const>\<open>copyAttributes\<close> leaves in a \<^verbatim>\<open>nil\<close> container when it does not panic.\<close>

definition copied :: "attributes \<Rightarrow> Span_Attributes option" where
  "copied inp = projr (copyAttributes None inp)"

text \<open>The time event emitted for an annotation, and for a message event.\<close>

definition annotationEvent :: "Annotation \<Rightarrow> Span_TimeEvent" where
  "annotationEvent a =
     \<lparr>te_Time = timestampProto (a_Time a),
      te_Value = Value_Annotation
        \<lparr>Description = truncated (a_Message a) 256, an_Attributes = copied (a_Attributes a)\<rparr>\<rparr>"

definition messageEvent :: "MessageEvent \<Rightarrow> Span_TimeEvent" where
  "messageEvent e =
     \<lparr>te_Time = timestampProto (e_Time e),
      te_Value = Value_MessageEvent
        \<lparr>me_Type = e_EventType e, me_Id = e_MessageID e,
         me_UncompressedSizeBytes = e_UncompressedByteSize e,
         me_CompressedSizeBytes = e_CompressedByteSize e\<rparr>\<rparr>"

text \<open>The stack frame emitted for a frame of the iterator.\<close>

definition stackFrame :: "Frame \<Rightarrow> StackTrace_StackFrame" where
  "stackFrame f =
     \<lparr>FunctionName = truncated (Function f) 1024, FileName = truncated (File f) 256,
      LineNumber = word_of_int (Line f)\<rparr>"

text \<open>
  Readings of a wire span: its time events, those of each kind, the two dropped counts
  (zero when there is no time-events container), the attribute entries and the dropped
  attribute count (none when there is no attributes container), the stack frames and
  the dropped frame count.
\<close>

definition emittedEvents :: "Span \<Rightarrow> Span_TimeEvent list" where
  "emittedEvents sp = (case sp_TimeEvents sp of None \<Rightarrow> [] | Some t \<Rightarrow> TimeEvent t)"

definition isAnnotation :: "Span_TimeEvent \<Rightarrow> bool" where
  "isAnnotation ev \<longleftrightarrow>
     (case te_Value ev of Value_Annotation a \<Rightarrow> True | Value_MessageEvent m \<Rightarrow> False)"

definition isMessageEvent :: "Span_TimeEvent \<Rightarrow> bool" where
  "isMessageEvent ev \<longleftrightarrow>
     (case te_Value ev of Value_Annotation a \<Rightarrow> False | Value_MessageEvent m \<Rightarrow> True)"

definition keptAnnotations :: "Span \<Rightarrow> nat" where
  "keptAnnotations sp = length (filter isAnnotation (emittedEvents sp))"

definition keptMessageEvents :: "Span \<Rightarrow> nat" where
  "keptMessageEvents sp = length (filter isMessageEvent (emittedEvents sp))"

definition droppedAnnotations :: "Span \<Rightarrow> int32" where
  "droppedAnnotations sp =
     (case sp_TimeEvents sp of None \<Rightarrow> 0 | Some t \<Rightarrow> DroppedAnnotationsCount t)"

definition droppedMessageEvents :: "Span \<Rightarrow> int32" where
  "droppedMessageEvents sp =
     (case sp_TimeEvents sp of None \<Rightarrow> 0 | Some t \<Rightarrow> DroppedMessageEventsCount t)"

definition keptAttributes :: "Span \<Rightarrow> nat" where
  "keptAttributes sp = card (dom (attributeMapOf (sp_Attributes sp)))"

definition droppedAttributes :: "Span \<Rightarrow> int32" where
  "droppedAttributes sp =
     (case sp_Attributes sp of None \<Rightarrow> 0 | Some a \<Rightarrow> DroppedAttributesCount a)"

definition keptFrames :: "Span \<Rightarrow> nat" where
  "keptFrames sp =
     (case sp_StackTrace sp of None \<Rightarrow> 0 | Some st \<Rightarrow> length (sf_Frame (StackFrames st)))"

definition droppedFrames :: "Span \<Rightarrow> int32" where
  "droppedFrames sp =
     (case sp_StackTrace sp of None \<Rightarrow> 0 | Some st \<Rightarrow> DroppedFramesCount (StackFrames st))"

text \<open>
  The container \<^verbatim>\<open>sp.TimeEvents\<close> after some events have been appended to it: it is
  created by the first event.
\<close>

definition appendTimeEvents ::
  "Span_TimeEvents option \<Rightarrow> Span_TimeEvent list \<Rightarrow> Span_TimeEvents option" where
  "appendTimeEvents timeEvents evs =
     (if evs = [] then timeEvents
      else
        let tes = (case timeEvents of
                     None \<Rightarrow> \<lparr>TimeEvent = [], DroppedAnnotationsCount = 0,
                               DroppedMessageEventsCount = 0\<rparr>
                   | Some t \<Rightarrow> t)
        in Some (tes\<lparr>TimeEvent := TimeEvent tes @ evs\<rparr>))"

section \<open>Example spans\<close>

text \<open>
  A span named \<^verbatim>\<open>"checkout"\<close> with no attributes, 40 annotations, 130 message events and a
  stack trace of 200 frames.
\<close>

definition exampleTime :: Time where
  "exampleTime = \<lparr>Unix = 1500000000, Nanosecond = 500\<rparr>"

definition exampleAnnotation :: Annotation where
  "exampleAnnotation =
     \<lparr>a_Time = exampleTime, a_Message = bytes ''retry'', a_Attributes = []\<rparr>"

definition exampleMessageEvent :: MessageEvent where
  "exampleMessageEvent =
     \<lparr>e_Time = exampleTime, e_EventType = 1, e_MessageID = 7,
      e_UncompressedByteSize = 512, e_CompressedByteSize = 300\<rparr>"

definition exampleFrame :: Frame where
  "exampleFrame = \<lparr>Function = bytes ''main.run'', File = bytes ''main.go'', Line = 42\<rparr>"

definition exampleSpan :: SpanData where
  "exampleSpan =
     \<lparr>s_SpanContext = \<lparr>TraceID = replicate 16 0xAB, SpanID = replicate 8 0x01\<rparr>,
      s_ParentSpanID = replicate 8 0,
      s_Name = bytes ''checkout'',
      s_StartTime = exampleTime,
      s_EndTime = exampleTime,
      s_Attributes = [],
      s_Annotations = replicate 40 exampleAnnotation,
      s_MessageEvents = replicate 130 exampleMessageEvent,
      s_Status = \<lparr>Code = 0, Message = []\<rparr>,
      s_StackTrace = Some (replicate 200 exampleFrame),
      s_Links = [],
      s_HasRemoteParent = False\<rparr>"

text \<open>
  A span with one attribute, \<^verbatim>\<open>"ratio"\<close>, whose value is a floating-point number, a key
  of 130 bytes with a boolean value, and a stack trace that is present and has no frame.
\<close>

definition floatSpan :: SpanData where
  "floatSpan =
     \<lparr>s_SpanContext = \<lparr>TraceID = replicate 16 0xAB, SpanID = replicate 8 0x02\<rparr>,
      s_ParentSpanID = replicate 8 0x01,
      s_Name = bytes ''charge'',
      s_StartTime = exampleTime,
      s_EndTime = exampleTime,
      s_Attributes = [(bytes ''ratio'', IsOther), (replicate 130 0x6B, IsBool True)],
      s_Annotations = [],
      s_MessageEvents = [],
      s_Status = \<lparr>Code = 2, Message = bytes ''unknown''\<rparr>,
      s_StackTrace = Some [],
      s_Links = [],
      s_HasRemoteParent = True\<rparr>"

text \<open>A span with \<open>2\<^sup>3\<^sup>1 + 32\<close> annotations and nothing else.\<close>

definition hugeSpan :: SpanData where
  "hugeSpan =
     \<lparr>s_SpanContext = \<lparr>TraceID = replicate 16 0xAB, SpanID = replicate 8 0x03\<rparr>,
      s_ParentSpanID = replicate 8 0,
      s_Name = bytes ''replay'',
      s_StartTime = exampleTime,
      s_EndTime = exampleTime,
      s_Attributes = [],
      s_Annotations = replicate 2147483680 exampleAnnotation,
      s_MessageEvents = [],
      s_Status = \<lparr>Code = 0, Message = []\<rparr>,
      s_StackTrace = None,
      s_Links = [],
      s_HasRemoteParent = False\<rparr>"

text \<open>
  An attribute map with \<open>2\<^sup>3\<^sup>1\<close> entries: the keys are of 129, 130, 131, ... bytes and
  every value is a boolean.
\<close>

definition manyLongKeys :: attributes where
  "manyLongKeys = map (\<lambda>i. (replicate (129 + i) 0x6B, IsBool True)) [0..<2147483648]"

section \<open>Decoding the last rune\<close>

text \<open>
  Facts about the decoder, up to the one that \<^verbatim>\<open>trunc\<close> rests on: whenever the final
  bytes form an incomplete multi-byte character, \<^verbatim>\<open>DecodeLastRune\<close> reports an encoding
  error of width 1.
\<close>

declare scanBack.simps [simp del]
declare trimLoop.simps [simp del]

lemma first_cases:
  "(b < 0x80 \<and> first b = as) \<or> (0x80 \<le> b \<and> first b = xx) \<or>
   (0xC2 \<le> b \<and> b \<le> 0xF4 \<and> first b \<in> {s1, s2, s3, s4, s5, s6, s7})"
  unfolding first_def by (simp add: word_le_nat_alt word_less_nat_alt) 

lemma first_range:
  "first b \<in> {as, xx, s1, s2, s3, s4, s5, s6, s7}"
  unfolding first_def by simp

lemma RuneStart_iff: "RuneStart b \<longleftrightarrow> \<not> (0x80 \<le> b \<and> b \<le> 0xBF)"
proof -
  have "list_all (\<lambda>n. RuneStart (of_nat n) \<longleftrightarrow> \<not> (0x80 \<le> (of_nat n :: byte) \<and> (of_nat n :: byte) \<le> 0xBF)) [0..<256]"
    by code_simp
  moreover have "unat b \<in> set [0..<256]"
    using unsigned_less[of b, where ?'a=nat] by simp
  ultimately have "RuneStart (of_nat (unat b)) \<longleftrightarrow> \<not> (0x80 \<le> (of_nat (unat b) :: byte) \<and> (of_nat (unat b) :: byte) \<le> 0xBF)"
    unfolding list_all_iff by blast
  then show ?thesis by simp
qed

lemma DecodeRune_size_ge2:
  assumes "DecodeRune p = (r, sz)" "2 \<le> sz"
  shows "sz \<le> int (length p) \<and> 0x80 \<le> p ! nat (sz - 1) \<and> p ! nat (sz - 1) \<le> 0xBF \<and> sz \<le> 4"
  using assms first_range[of "p ! 0"]
  unfolding DecodeRune_def Let_def
  by (auto simp: as_def xx_def s1_def s2_def s3_def s4_def s5_def s6_def s7_def acceptRanges_def locb_def hicb_def 
         word_le_nat_alt word_less_nat_alt split: if_splits)

lemma ucast_byte_sless: "((ucast (b::byte) :: rune) <s RuneSelf) = (b < 0x80)"
proof -
  have "uint b < 2 ^ 8" using uint_bounded[of b] by simp
  then have "signed_take_bit 31 (uint b) = uint b"
    by (intro signed_take_bit_int_eq_self) (auto intro: order.strict_trans2 order_trans[OF _ uint_nonnegative])
  then have "sint (ucast b :: rune) = uint b"
    by (simp add: signed_ucast_eq)
  then show ?thesis
    by (simp add: word_sless_alt RuneSelf_def word_less_def)
qed

lemma scanBack_below: "start < lim \<Longrightarrow> scanBack p start lim = start"
  by (subst scanBack.simps) simp

lemma scanBack_hit: "lim \<le> start \<Longrightarrow> RuneStart (p ! nat start) \<Longrightarrow> scanBack p start lim = start"
  by (subst scanBack.simps) simp

lemma scanBack_miss:
  "lim \<le> start \<Longrightarrow> \<not> RuneStart (p ! nat start) \<Longrightarrow> scanBack p start lim = scanBack p (start - 1) lim"
  by (subst scanBack.simps) simp

lemma scanBack_le: "scanBack p start lim \<le> start"
proof (induction p start lim rule: scanBack.induct)
  case (1 p start lim)
  show ?case
    using 1 by (subst scanBack.simps) (auto split: if_splits)
qed

lemma DecodeLastRune_nonascii:
  assumes "p \<noteq> []" "0x80 \<le> last p"
  shows "DecodeLastRune p =
     (let start = max 0 (scanBack p (int (length p) - 2) (max 0 (int (length p) - 4)))
      in case DecodeRune (drop (nat start) p) of
           (r, sz) \<Rightarrow> if start + sz \<noteq> int (length p) then (RuneError, 1) else (r, sz))"
proof -
  have "p ! nat (int (length p) - 1) = last p"
    using assms(1) by (simp add: last_conv_nth nat_diff_distrib')
  moreover have "(last p < 0x80) = False" using assms(2) by simp
  ultimately show ?thesis
    using assms(1)
    by (simp add: DecodeLastRune_def Let_def ucast_byte_sless UTFMax_def max_def)
qed

lemma DecodeRune_single: "0x80 \<le> l \<Longrightarrow> DecodeRune [l] = (RuneError, 1)"
  using first_cases[of l]
  by (auto simp: DecodeRune_def Let_def as_def xx_def s1_def s2_def s3_def s4_def s5_def s6_def s7_def RuneError_def)

lemma first_E0: "0xE0 \<le> l \<Longrightarrow> first l \<in> {xx, s2, s3, s4, s5, s6, s7}"
  unfolding first_def by (auto simp: word_le_nat_alt word_less_nat_alt)

lemma first_F0: "0xF0 \<le> l \<Longrightarrow> first l \<in> {xx, s5, s6, s7}"
  unfolding first_def by (auto simp: word_le_nat_alt word_less_nat_alt)

lemma DecodeRune_two: "0xE0 \<le> l \<Longrightarrow> DecodeRune [l, c] = (RuneError, 1)"
  using first_E0[of l]
  by (auto simp: DecodeRune_def Let_def as_def xx_def s2_def s3_def s4_def s5_def s6_def s7_def RuneError_def)

lemma DecodeRune_three: "0xF0 \<le> l \<Longrightarrow> DecodeRune [l, c, d] = (RuneError, 1)"
  using first_F0[of l]
  by (auto simp: DecodeRune_def Let_def as_def xx_def s5_def s6_def s7_def RuneError_def)

lemma DecodeLastRune_lead:
  assumes "0xC0 \<le> l"
  shows "DecodeLastRune (q @ [l]) = (RuneError, 1)"
proof -
  let ?p = "q @ [l]"
  let ?start = "max 0 (scanBack ?p (int (length ?p) - 2) (max 0 (int (length ?p) - 4)))"
  have l80: "0x80 \<le> l" using assms by (simp add: word_le_nat_alt)
  have eq: "DecodeLastRune ?p =
      (case DecodeRune (drop (nat ?start) ?p) of
           (r, sz) \<Rightarrow> if ?start + sz \<noteq> int (length ?p) then (RuneError, 1) else (r, sz))"
    using DecodeLastRune_nonascii[of ?p] l80 by (simp add: Let_def)
  show ?thesis
  proof (cases q)
    case Nil
    then have "?start = 0"
      by (simp add: scanBack_below)
    with Nil show ?thesis
      using eq by (simp add: DecodeRune_single[OF l80])
  next
    case (Cons a q')
    have le: "?start \<le> int (length ?p) - 2"
      using scanBack_le[of ?p "int (length ?p) - 2" "max 0 (int (length ?p) - 4)"] Cons
      by (simp add: max_def)
    obtain r sz where d: "DecodeRune (drop (nat ?start) ?p) = (r, sz)"
      by (cases "DecodeRune (drop (nat ?start) ?p)") 
    show ?thesis
    proof (cases "?start + sz \<noteq> int (length ?p)")
      case True
      with eq d show ?thesis by simp
    next
      case False
      then have sz: "sz = int (length ?p) - ?start" by simp
      with le have "2 \<le> sz" by linarith
      from DecodeRune_size_ge2[OF d this]
      have c: "0x80 \<le> drop (nat ?start) ?p ! nat (sz - 1)" "drop (nat ?start) ?p ! nat (sz - 1) \<le> 0xBF"
        by simp_all
      have "nat ?start + nat (sz - 1) = length q"
        using sz le by (simp add: nat_diff_distrib' nat_add_distrib) linarith
      then have "drop (nat ?start) ?p ! nat (sz - 1) = l"
        by (subst nth_drop) (simp_all add: nth_append)
      with c(2) assms show ?thesis by (simp add: word_le_nat_alt)
    qed
  qed
qed

lemma RuneStart_lead: "0xC0 \<le> l \<Longrightarrow> RuneStart l"
  by (simp add: RuneStart_iff word_le_nat_alt)

lemma DecodeLastRune_lead_cont:
  assumes "0xE0 \<le> l" "continuationByte c"
  shows "DecodeLastRune (q @ [l, c]) = (RuneError, 1)"
proof -
  let ?p = "q @ [l, c]"
  have "0x80 \<le> last ?p" using assms(2) by (simp add: continuationByte_def)
  moreover have "RuneStart l" using assms(1) by (intro RuneStart_lead) (simp add: word_le_nat_alt)
  then have "scanBack ?p (int (length ?p) - 2) (max 0 (int (length ?p) - 4)) = int (length q)"
    by (subst scanBack_hit) (simp_all add: nth_append)
  ultimately show ?thesis
    using assms(1) by (simp add: DecodeLastRune_nonascii Let_def DecodeRune_two)
qed

lemma DecodeLastRune_lead_cont_cont:
  assumes "0xF0 \<le> l" "continuationByte c" "continuationByte d"
  shows "DecodeLastRune (q @ [l, c, d]) = (RuneError, 1)"
proof -
  let ?p = "q @ [l, c, d]"
  have "0x80 \<le> last ?p" using assms(3) by (simp add: continuationByte_def)
  moreover have "RuneStart l" using assms(1) by (intro RuneStart_lead) (simp add: word_le_nat_alt)
  moreover have "\<not> RuneStart c" using assms(2) by (simp add: RuneStart_iff continuationByte_def)
  moreover have "nat (int (length ?p) - 2) = Suc (length q)" by simp
  moreover have "int (length ?p) - 2 - 1 = int (length q)" by simp
  ultimately have "scanBack ?p (int (length ?p) - 2) (max 0 (int (length ?p) - 4)) = int (length q)"
    by (subst scanBack_miss) (simp_all add: nth_append scanBack_hit del: length_append)
  with \<open>0x80 \<le> last ?p\<close> show ?thesis
    using assms(1) by (simp add: DecodeLastRune_nonascii Let_def DecodeRune_three)
qed

lemma sequenceLength_gt1: "1 < sequenceLength l \<Longrightarrow> 0xC0 \<le> l"
  by (simp add: sequenceLength_def word_le_nat_alt split: if_splits)

lemma sequenceLength_gt2: "2 < sequenceLength l \<Longrightarrow> 0xE0 \<le> l"
  by (simp add: sequenceLength_def word_le_nat_alt split: if_splits)

lemma sequenceLength_gt3: "3 < sequenceLength l \<Longrightarrow> 0xF0 \<le> l"
  by (simp add: sequenceLength_def word_le_nat_alt split: if_splits)

lemma split_last1: "1 \<le> length b \<Longrightarrow> b = take (length b - 1) b @ [b ! (length b - 1)]"
  by (cases b rule: rev_cases) simp_all

lemma split_last2:
  "2 \<le> length b \<Longrightarrow> b = take (length b - 2) b @ [b ! (length b - 2), b ! (length b - 1)]"
  by (cases b rule: rev_cases, simp, rename_tac ys y, case_tac ys rule: rev_cases)
     (simp_all add: nth_append)

lemma split_last3:
  "3 \<le> length b \<Longrightarrow>
   b = take (length b - 3) b @ [b ! (length b - 3), b ! (length b - 2), b ! (length b - 1)]"
  by (cases b rule: rev_cases, simp, rename_tac ys y, case_tac ys rule: rev_cases, simp,
      rename_tac zs z, case_tac zs rule: rev_cases)
     (simp_all add: nth_append)

lemma incompleteTail_invalidTail:
  assumes "incompleteTail b"
  shows "invalidTail b"
proof -
  let ?n = "length b"
  from assms consider
      (one) "1 \<le> ?n" "1 < sequenceLength (b ! (?n - 1))"
    | (two) "2 \<le> ?n" "2 < sequenceLength (b ! (?n - 2))" "continuationByte (b ! (?n - 1))"
    | (three) "3 \<le> ?n" "3 < sequenceLength (b ! (?n - 3))" "continuationByte (b ! (?n - 2))"
        "continuationByte (b ! (?n - 1))"
    unfolding incompleteTail_def Let_def by blast
  then have "DecodeLastRune b = (RuneError, 1)"
  proof cases
    case one
    from DecodeLastRune_lead[OF sequenceLength_gt1[OF one(2)], of "take (?n - 1) b"]
    show ?thesis using split_last1[OF one(1)] by simp
  next
    case two
    from DecodeLastRune_lead_cont[OF sequenceLength_gt2[OF two(2)] two(3), of "take (?n - 2) b"]
    show ?thesis using split_last2[OF two(1)] by simp
  next
    case three
    from DecodeLastRune_lead_cont_cont[OF sequenceLength_gt3[OF three(2)] three(3) three(4),
        of "take (?n - 3) b"]
    show ?thesis using split_last3[OF three(1)] by simp
  qed
  then show ?thesis by (simp add: invalidTail_def)
qed

section \<open>Properties of \<^verbatim>\<open>trunc\<close> and \<^verbatim>\<open>clip32\<close>\<close>

text \<open>
  The loop of \<^verbatim>\<open>trunc\<close> never reaches its panic: a sequence that fails the test is not
  empty. It returns the longest prefix of its argument that passes the test.
\<close>

lemma trimLoop_unfold:
  "trimLoop b = (if invalidTail b then trimLoop (butlast b) else Inr b)"
proof (cases "invalidTail b")
  case True
  then have "b \<noteq> []" by (auto simp: invalidTail_def DecodeLastRune_def)
  then have "take (nat (int (length b) - 1)) b = butlast b" "\<not> int (length b) - 1 < 0"
    by (simp_all add: butlast_conv_take nat_diff_distrib')
  with True show ?thesis
    by (subst trimLoop.simps) (auto simp: invalidTail_def split: prod.splits)
next
  case False
  then show ?thesis
    by (subst trimLoop.simps) (auto simp: invalidTail_def split: prod.splits)
qed

lemma trimLoop_spec:
  "\<exists>k\<le>length b. trimLoop b = Inr (take k b) \<and> \<not> invalidTail (take k b) \<and>
     (\<forall>j. k < j \<and> j \<le> length b \<longrightarrow> invalidTail (take j b))"
proof (induction b rule: rev_induct)
  case Nil
  have "\<not> invalidTail []" by (simp add: invalidTail_def DecodeLastRune_def)
  then show ?case
    by (subst trimLoop_unfold) simp
next
  case (snoc x xs)
  show ?case
  proof (cases "invalidTail (xs @ [x])")
    case False
    then show ?thesis
      by (subst trimLoop_unfold) (auto intro!: exI[of _ "Suc (length xs)"])
  next
    case True
    from snoc obtain k where k: "k \<le> length xs" "trimLoop xs = Inr (take k xs)"
      "\<not> invalidTail (take k xs)" "\<forall>j. k < j \<and> j \<le> length xs \<longrightarrow> invalidTail (take j xs)"
      by blast
    have "invalidTail (take j (xs @ [x]))" if j: "k < j" "j \<le> length (xs @ [x])" for j
    proof (cases "j \<le> length xs")
      case True
      with j k(4) show ?thesis by simp
    next
      case False
      with j have "j = Suc (length xs)" by simp
      with \<open>invalidTail (xs @ [x])\<close> show ?thesis by simp
    qed
    with k True show ?thesis
      by (subst trimLoop_unfold) (auto intro!: exI[of _ k])
  qed
qed

lemma trunc_within:
  "int (length s) \<le> n \<Longrightarrow> trunc s n = Inr \<lparr>Value = s, TruncatedByteCount = 0\<rparr>"
  by (simp add: trunc_def)

lemma trunc_negative: "n < 0 \<Longrightarrow> trunc s n = Inl SliceBoundsOutOfRange"
  by (simp add: trunc_def)

lemma trunc_beyond:
  assumes "0 \<le> n" "n < int (length s)"
  shows "\<exists>k\<le>nat n. trunc s n =
           Inr \<lparr>Value = take k s, TruncatedByteCount = clip32 (int (length s) - int k)\<rparr> \<and>
         \<not> invalidTail (take k s) \<and>
         (\<forall>j. k < j \<and> j \<le> nat n \<longrightarrow> invalidTail (take j s))"
proof -
  let ?b = "take (nat n) s"
  have len: "length ?b = nat n" using assms by simp
  from trimLoop_spec[of ?b] obtain k where k: "k \<le> length ?b" "trimLoop ?b = Inr (take k ?b)"
    "\<not> invalidTail (take k ?b)" "\<forall>j. k < j \<and> j \<le> length ?b \<longrightarrow> invalidTail (take j ?b)"
    by blast
  have tk: "take j ?b = take j s" if "j \<le> nat n" for j
    using that by (simp add: min_def)
  have kn: "k \<le> nat n" using k(1) len by simp
  have "length (take k s) = k" using kn assms by simp
  then have "trunc s n = Inr \<lparr>Value = take k s, TruncatedByteCount = clip32 (int (length s) - int k)\<rparr>"
    using assms k(2) tk[OF kn] by (simp add: trunc_def)
  moreover have "\<not> invalidTail (take k s)" using k(3) tk[OF kn] by simp
  moreover have "\<forall>j. k < j \<and> j \<le> nat n \<longrightarrow> invalidTail (take j s)"
    using k(4) tk len by auto
  ultimately show ?thesis using kn by blast
qed

lemma sint_clip32:
  "sint (clip32 x) = (if x < MinInt32 then MinInt32 else if x > MaxInt32 then MaxInt32 else x)"
  by (simp add: clip32_def MinInt32_def MaxInt32_def sint_sbintrunc' signed_take_bit_int_eq_self)

lemma sint_clip32_count: "0 \<le> x \<Longrightarrow> sint (clip32 x) = min x MaxInt32"
  by (simp add: sint_clip32 MinInt32_def MaxInt32_def min_def)

lemma DecodeLastRune_ascii:
  "p \<noteq> [] \<Longrightarrow> last p < 0x80 \<Longrightarrow> DecodeLastRune p = (ucast (last p), 1)"
  by (simp add: DecodeLastRune_def Let_def ucast_byte_sless last_conv_nth nat_diff_distrib')

lemma trimLoop_replicate_a: "trimLoop (replicate 128 0x61) = Inr (replicate 128 0x61)"
proof -
  have "DecodeLastRune (replicate 128 0x61) = (ucast (0x61 :: byte), 1)"
    by (subst DecodeLastRune_ascii) simp_all
  then have "\<not> invalidTail (replicate 128 0x61)"
    by (simp add: invalidTail_def RuneError_def)
  then show ?thesis by (subst trimLoop_unfold) simp
qed

lemma trunc_Inr: "0 \<le> n \<Longrightarrow> trunc s n = Inr (truncated s n)"
proof (cases "int (length s) \<le> n")
  case True
  then show ?thesis by (simp add: truncated_def trunc_within)
next
  case False
  assume "0 \<le> n"
  with False obtain t where "trunc s n = Inr t"
    using trunc_beyond[of n s] by auto
  then show ?thesis by (simp add: truncated_def)
qed

lemma length_truncated: "0 \<le> n \<Longrightarrow> int (length (Value (truncated s n))) \<le> n"
proof (cases "int (length s) \<le> n")
  case True
  then show ?thesis by (simp add: truncated_def trunc_within)
next
  case False
  assume "0 \<le> n"
  with False obtain k where "k \<le> nat n"
    "trunc s n = Inr \<lparr>Value = take k s, TruncatedByteCount = clip32 (int (length s) - int k)\<rparr>"
    using trunc_beyond[of n s] by auto
  with \<open>0 \<le> n\<close> show ?thesis by (auto simp: truncated_def min_def)
qed

subsection \<open>Claim C7\<close>

text \<open>
  C7. For every integer \<open>x\<close>, \<^verbatim>\<open>clip32(x)\<close> is the minimum 32-bit signed value
  \<open>-2147483648\<close> when \<open>x\<close> is below it, the maximum 32-bit signed value \<open>2147483647\<close> when
  \<open>x\<close> is above it, and \<open>x\<close> itself otherwise.
\<close>

theorem clip32_saturates:
  "sint (clip32 x) =
     (if x < - 2147483648 then - 2147483648 else if 2147483647 < x then 2147483647 else x)"
  by (simp add: sint_clip32 MinInt32_def MaxInt32_def)

subsection \<open>Claim C3\<close>

text \<open>
  The claim as the specification states it gives the truncated-byte count as the original
  byte length minus the kept byte length. The source stores
  \<^verbatim>\<open>clip32(len(s) - len(b))\<close>: on a string of \<open>2\<^sup>3\<^sup>1 + 128\<close> bytes cut at 128 the count
  is \<open>2\<^sup>3\<^sup>1 - 1\<close>, the difference is \<open>2\<^sup>3\<^sup>1\<close>.
\<close>

theorem trunc_count_counterexample:
  "trunc (replicate 2147483776 0x61) 128 =
     Inr \<lparr>Value = replicate 128 0x61, TruncatedByteCount = 2147483647\<rparr> \<and>
   sint (2147483647 :: int32) <
     int (length (replicate 2147483776 (0x61 :: byte))) - int (length (replicate 128 (0x61 :: byte)))"
  by (simp add: trunc_def trimLoop_replicate_a clip32_def MinInt32_def MaxInt32_def)

text \<open>
  C3, amended. For every string \<open>s\<close> and byte limit \<open>n\<close>: if the byte length of \<open>s\<close> is at
  most \<open>n\<close>, \<^verbatim>\<open>trunc(s, n)\<close> returns \<open>s\<close> unchanged with truncated-byte count 0. Otherwise,
  for \<open>n \<ge> 0\<close>, it keeps the first \<open>n\<close> bytes and trims trailing bytes as long as the kept
  bytes end in a character that does not decode (the test \<^const>\<open>invalidTail\<close> of the
  loop): the value is the longest prefix \<open>take k s\<close> with \<open>k \<le> n\<close> that passes the test.
  The truncated-byte count is the original byte length minus the kept byte length after
  this trimming, saturated at the maximum 32-bit signed value.
\<close>

theorem trunc_spec:
  "(int (length s) \<le> n \<longrightarrow> trunc s n = Inr \<lparr>Value = s, TruncatedByteCount = 0\<rparr>) \<and>
   (0 \<le> n \<and> n < int (length s) \<longrightarrow>
      (\<exists>k\<le>nat n. \<exists>c.
         trunc s n = Inr \<lparr>Value = take k s, TruncatedByteCount = c\<rparr> \<and>
         \<not> invalidTail (take k s) \<and>
         (\<forall>j. k < j \<and> j \<le> nat n \<longrightarrow> invalidTail (take j s)) \<and>
         sint c = min (int (length s) - int (length (take k s))) 2147483647))"
proof (intro conjI impI)
  assume "int (length s) \<le> n"
  then show "trunc s n = Inr \<lparr>Value = s, TruncatedByteCount = 0\<rparr>" by (rule trunc_within)
next
  assume a: "0 \<le> n \<and> n < int (length s)"
  then obtain k where k: "k \<le> nat n"
    "trunc s n = Inr \<lparr>Value = take k s, TruncatedByteCount = clip32 (int (length s) - int k)\<rparr>"
    "\<not> invalidTail (take k s)" "\<forall>j. k < j \<and> j \<le> nat n \<longrightarrow> invalidTail (take j s)"
    using trunc_beyond[of n s] by blast
  have lk: "length (take k s) = k" using k(1) a by (auto simp: min_def)
  then have "sint (clip32 (int (length s) - int k)) =
      min (int (length s) - int (length (take k s))) 2147483647"
    using k(1) a by (subst sint_clip32_count) (simp_all add: MaxInt32_def)
  with k show "\<exists>k\<le>nat n. \<exists>c.
         trunc s n = Inr \<lparr>Value = take k s, TruncatedByteCount = c\<rparr> \<and>
         \<not> invalidTail (take k s) \<and>
         (\<forall>j. k < j \<and> j \<le> nat n \<longrightarrow> invalidTail (take j s)) \<and>
         sint c = min (int (length s) - int (length (take k s))) 2147483647"
    by blast
qed

text \<open>
  The bytes 61 E2 82 AC 62 (the letter a, the euro sign, the letter b) cut at 5 and at 3:
  the cut at 3 falls inside the three bytes of the euro sign, which are trimmed away.
\<close>

theorem trunc_spec_witness:
  "int (length [0x61, 0xE2, 0x82, 0xAC, 0x62 :: byte]) \<le> 5 \<and>
   trunc [0x61, 0xE2, 0x82, 0xAC, 0x62] 5 =
     Inr \<lparr>Value = [0x61, 0xE2, 0x82, 0xAC, 0x62], TruncatedByteCount = 0\<rparr> \<and>
   (0 :: int) \<le> 3 \<and> 3 < int (length [0x61, 0xE2, 0x82, 0xAC, 0x62 :: byte]) \<and>
   (\<exists>k\<le>nat 3. \<exists>c.
      trunc [0x61, 0xE2, 0x82, 0xAC, 0x62] 3 =
        Inr \<lparr>Value = take k [0x61, 0xE2, 0x82, 0xAC, 0x62], TruncatedByteCount = c\<rparr> \<and>
      \<not> invalidTail (take k [0x61, 0xE2, 0x82, 0xAC, 0x62]) \<and>
      (\<forall>j. k < j \<and> j \<le> nat 3 \<longrightarrow> invalidTail (take j [0x61, 0xE2, 0x82, 0xAC, 0x62])) \<and>
      sint c = min (int (length [0x61, 0xE2, 0x82, 0xAC, 0x62 :: byte])
                     - int (length (take k [0x61, 0xE2, 0x82, 0xAC, 0x62 :: byte]))) 2147483647) \<and>
   trunc [0x61, 0xE2, 0x82, 0xAC, 0x62] 3 = Inr \<lparr>Value = [0x61], TruncatedByteCount = 4\<rparr>"
proof -
  let ?s = "[0x61, 0xE2, 0x82, 0xAC, 0x62 :: byte]"
  have h1: "int (length ?s) \<le> 5" by simp
  have h2: "(0 :: int) \<le> 3 \<and> 3 < int (length ?s)" by simp
  have v: "trunc ?s 3 = Inr \<lparr>Value = [0x61], TruncatedByteCount = 4\<rparr>" by code_simp
  from trunc_spec[of ?s 5] h1
  have c1: "trunc ?s 5 = Inr \<lparr>Value = ?s, TruncatedByteCount = 0\<rparr>" by blast
  from trunc_spec[of ?s 3] h2
  have c2: "\<exists>k\<le>nat 3. \<exists>c.
      trunc ?s 3 = Inr \<lparr>Value = take k ?s, TruncatedByteCount = c\<rparr> \<and>
      \<not> invalidTail (take k ?s) \<and>
      (\<forall>j. k < j \<and> j \<le> nat 3 \<longrightarrow> invalidTail (take j ?s)) \<and>
      sint c = min (int (length ?s) - int (length (take k ?s))) 2147483647"
    by blast
  from h1 c1 h2 c2 v show ?thesis by blast
qed

subsection \<open>Claim C4\<close>

text \<open>
  The claim as the specification states it, for every input and every limit, fails in two
  ways. A string within the limit is returned as it is, so the two bytes E2 82, the start
  of a three-byte character, come back unchanged from \<^verbatim>\<open>trunc(s, 128)\<close>. And with a
  negative limit the slice expression \<^verbatim>\<open>s[:limit]\<close> panics.
\<close>

theorem trunc_incomplete_counterexample:
  "trunc [0xE2, 0x82] 128 = Inr \<lparr>Value = [0xE2, 0x82], TruncatedByteCount = 0\<rparr> \<and>
   incompleteTail [0xE2, 0x82] \<and>
   trunc [] (- 1) = Inl SliceBoundsOutOfRange"
  by (simp add: trunc_def incompleteTail_def sequenceLength_def continuationByte_def)

text \<open>
  C4, amended. For every input byte sequence and every limit \<open>n \<ge> 0\<close>, \<^verbatim>\<open>trunc\<close> returns
  a value and does not panic, whatever the encoding of the input. An input within the
  limit is returned unchanged, with count 0, whatever its final bytes. Whenever the input
  is longer than the limit, the value returned is a prefix of its first \<open>n\<close> bytes that
  does not end in an incomplete multi-byte character, nor in any other byte that the
  decoder rejects: such trailing bytes, and only such bytes, are trimmed away.
\<close>

theorem trunc_no_incomplete_tail:
  assumes "0 \<le> n"
  shows "\<exists>t. trunc s n = Inr t \<and>
           (int (length s) \<le> n \<longrightarrow> t = \<lparr>Value = s, TruncatedByteCount = 0\<rparr>) \<and>
           (n < int (length s) \<longrightarrow>
              \<not> incompleteTail (Value t) \<and> \<not> invalidTail (Value t) \<and>
              (\<exists>k\<le>nat n. Value t = take k s \<and>
                 (\<forall>j. k < j \<and> j \<le> nat n \<longrightarrow> invalidTail (take j s))))"
proof (cases "n < int (length s)")
  case False
  then show ?thesis by (simp add: trunc_within)
next
  case True
  with assms obtain k where k: "k \<le> nat n"
    "trunc s n = Inr \<lparr>Value = take k s, TruncatedByteCount = clip32 (int (length s) - int k)\<rparr>"
    "\<not> invalidTail (take k s)"
    "\<forall>j. k < j \<and> j \<le> nat n \<longrightarrow> invalidTail (take j s)"
    using trunc_beyond[of n s] by blast
  from k(3) have "\<not> incompleteTail (take k s)"
    using incompleteTail_invalidTail by blast
  moreover have "\<exists>k'\<le>nat n. take k s = take k' s \<and>
      (\<forall>j. k' < j \<and> j \<le> nat n \<longrightarrow> invalidTail (take j s))"
    using k(1,4) by blast
  ultimately show ?thesis using True k(2,3) by simp
qed

text \<open>
  The byte sequence 61 F0 9F 98 80 62 cut at 4 ends in the first three bytes of a
  four-byte character; the sequence 61 80 FF 62 62, which is not UTF-8 at all, cut at 3
  ends in two bytes that begin nothing. The two bytes E2 82 are within the limit 128 and
  come back as they are.
\<close>

theorem trunc_no_incomplete_tail_witness:
  "(0 :: int) \<le> 4 \<and>
   (\<exists>t. trunc [0x61, 0xF0, 0x9F, 0x98, 0x80, 0x62] 4 = Inr t \<and>
        \<not> incompleteTail (Value t) \<and> \<not> invalidTail (Value t)) \<and>
   trunc [0x61, 0xF0, 0x9F, 0x98, 0x80, 0x62] 4 = Inr \<lparr>Value = [0x61], TruncatedByteCount = 5\<rparr> \<and>
   incompleteTail (take 4 [0x61, 0xF0, 0x9F, 0x98, 0x80, 0x62]) \<and>
   (\<exists>t. trunc [0x61, 0x80, 0xFF, 0x62, 0x62] 3 = Inr t \<and>
        \<not> incompleteTail (Value t) \<and> \<not> invalidTail (Value t)) \<and>
   trunc [0x61, 0x80, 0xFF, 0x62, 0x62] 3 = Inr \<lparr>Value = [0x61], TruncatedByteCount = 4\<rparr> \<and>
   (0 :: int) \<le> 128 \<and> int (length [0xE2, 0x82 :: byte]) \<le> 128 \<and>
   trunc [0xE2, 0x82] 128 = Inr \<lparr>Value = [0xE2, 0x82], TruncatedByteCount = 0\<rparr>"
proof -
  let ?s = "[0x61, 0xF0, 0x9F, 0x98, 0x80, 0x62 :: byte]"
  let ?u = "[0x61, 0x80, 0xFF, 0x62, 0x62 :: byte]"
  let ?w = "[0xE2, 0x82 :: byte]"
  have h: "(0 :: int) \<le> 4" "(0 :: int) \<le> 3" "(0 :: int) \<le> 128" by simp_all
  have l: "4 < int (length ?s)" "3 < int (length ?u)" "int (length ?w) \<le> 128" by simp_all
  from trunc_no_incomplete_tail[OF h(1), of ?s] l(1)
  have c1: "\<exists>t. trunc ?s 4 = Inr t \<and> \<not> incompleteTail (Value t) \<and> \<not> invalidTail (Value t)"
    by blast
  from trunc_no_incomplete_tail[OF h(2), of ?u] l(2)
  have c2: "\<exists>t. trunc ?u 3 = Inr t \<and> \<not> incompleteTail (Value t) \<and> \<not> invalidTail (Value t)"
    by blast
  from trunc_no_incomplete_tail[OF h(3), of ?w] l(3)
  have c3: "trunc ?w 128 = Inr \<lparr>Value = ?w, TruncatedByteCount = 0\<rparr>"
    by blast
  have v1: "trunc ?s 4 = Inr \<lparr>Value = [0x61], TruncatedByteCount = 5\<rparr>" by code_simp
  have v2: "trunc ?u 3 = Inr \<lparr>Value = [0x61], TruncatedByteCount = 4\<rparr>" by code_simp
  have i: "incompleteTail (take 4 ?s)"
    by (simp add: incompleteTail_def sequenceLength_def continuationByte_def)
  from h(1) c1 v1 i c2 v2 h(3) l(3) c3 show ?thesis by (intro conjI)
qed

subsection \<open>Claim C8\<close>

text \<open>
  The claim as the specification states it, an equation between pairs, fails as soon as
  anything is cut: the second call is on a string within the limit and reports that it
  removed nothing. \<^verbatim>\<open>trunc("abcd", 2)\<close> is \<^verbatim>\<open>("ab", 2)\<close> and \<^verbatim>\<open>trunc("ab", 2)\<close> is
  \<^verbatim>\<open>("ab", 0)\<close>.
\<close>

theorem trunc_idempotent_counterexample:
  "trunc [0x61, 0x62, 0x63, 0x64] 2 = Inr \<lparr>Value = [0x61, 0x62], TruncatedByteCount = 2\<rparr> \<and>
   trunc [0x61, 0x62] 2 = Inr \<lparr>Value = [0x61, 0x62], TruncatedByteCount = 0\<rparr>"
  by code_simp

text \<open>
  C8, amended. For every string \<open>s\<close> and limit \<open>n \<ge> 0\<close>, truncation is idempotent on
  the value: \<^verbatim>\<open>trunc(trunc(s, n).value, n)\<close> has the value of \<^verbatim>\<open>trunc(s, n)\<close>, with
  truncated-byte count 0. The two results are equal as pairs exactly when \<open>s\<close> is within
  the limit.
\<close>

theorem trunc_idempotent_value:
  assumes "0 \<le> n"
  shows "\<exists>t. trunc s n = Inr t \<and>
           trunc (Value t) n = Inr \<lparr>Value = Value t, TruncatedByteCount = 0\<rparr> \<and>
           (trunc (Value t) n = trunc s n \<longleftrightarrow> int (length s) \<le> n)"
proof (cases "int (length s) \<le> n")
  case True
  then show ?thesis by (simp add: trunc_within)
next
  case False
  with assms obtain k where k: "k \<le> nat n"
    "trunc s n = Inr \<lparr>Value = take k s, TruncatedByteCount = clip32 (int (length s) - int k)\<rparr>"
    using trunc_beyond[of n s] by auto
  have lk: "length (take k s) = k" using k(1) False by (auto simp: min_def)
  then have "int (length (take k s)) \<le> n" using k(1) assms by simp
  then have again: "trunc (take k s) n = Inr \<lparr>Value = take k s, TruncatedByteCount = 0\<rparr>"
    by (rule trunc_within)
  have pos: "0 < int (length s) - int k" using k(1) False assms by linarith
  then have "sint (clip32 (int (length s) - int k)) = min (int (length s) - int k) MaxInt32"
    by (intro sint_clip32_count) simp
  moreover have "0 < min (int (length s) - int k) MaxInt32"
    using pos by (simp add: MaxInt32_def)
  ultimately have "clip32 (int (length s) - int k) \<noteq> 0" by auto
  with k(2) again False show ?thesis by simp
qed

theorem trunc_idempotent_value_witness:
  "(0 :: int) \<le> 2 \<and>
   (\<exists>t. trunc [0x61, 0x62, 0x63, 0x64] 2 = Inr t \<and>
        trunc (Value t) 2 = Inr \<lparr>Value = Value t, TruncatedByteCount = 0\<rparr> \<and>
        (trunc (Value t) 2 = trunc [0x61, 0x62, 0x63, 0x64] 2
           \<longleftrightarrow> int (length [0x61, 0x62, 0x63, 0x64 :: byte]) \<le> 2))"
proof -
  have h: "(0 :: int) \<le> 2" by simp
  from trunc_idempotent_value[OF h, of "[0x61, 0x62, 0x63, 0x64]"] h show ?thesis by blast
qed

section \<open>Properties of \<^verbatim>\<open>copyAttributes\<close>\<close>

lemma attributeValue_cases:
  "attributeValue (IsBool b) = Inr (Some (AttributeValue_BoolValue b))"
  "attributeValue (IsInt64 i) = Inr (Some (AttributeValue_IntValue i))"
  "attributeValue (IsString str) = Inr (Some (AttributeValue_StringValue (truncated str 256)))"
  "attributeValue IsOther = Inr None"
  by (simp_all add: attributeValue_def trunc_Inr)

lemma attributeValue_unsupported: "\<not> supportedType v \<Longrightarrow> attributeValue v = Inr None"
  by (cases v) (simp_all add: supportedType_def attributeValue_cases)

lemma attributeValue_supported: "supportedType v \<Longrightarrow> \<exists>av. attributeValue v = Inr (Some av)"
  by (cases v) (simp_all add: supportedType_def attributeValue_cases)

lemma copyAttributesLoop_unsupported:
  "\<not> supportedType v \<Longrightarrow>
   copyAttributesLoop ((key, v) # rest) m dropped = copyAttributesLoop rest m dropped"
  by (simp add: attributeValue_unsupported)

lemma copyAttributesLoop_long:
  "supportedType v \<Longrightarrow> 128 < length key \<Longrightarrow>
   copyAttributesLoop ((key, v) # rest) m dropped = copyAttributesLoop rest m (dropped + 1)"
  using attributeValue_supported[of v] by auto

lemma copyAttributesLoop_stored:
  "supportedType v \<Longrightarrow> length key \<le> 128 \<Longrightarrow>
   \<exists>av. attributeValue v = Inr (Some av) \<and>
     copyAttributesLoop ((key, v) # rest) m dropped = copyAttributesLoop rest (m(key \<mapsto> av)) dropped"
  using attributeValue_supported[of v] by auto

lemma copyAttributesLoop_result:
  "\<exists>m'. copyAttributesLoop inp m dropped = Inr (m', dropped + of_nat (length (lengthRejected inp))) \<and>
        dom m' = dom m \<union> fst ` set (stored inp) \<and>
        (\<forall>key. key \<notin> fst ` set (stored inp) \<longrightarrow> m' key = m key)"
proof (induction inp arbitrary: m dropped)
  case Nil
  show ?case by (simp add: lengthRejected_def stored_def)
next
  case (Cons entry rest)
  obtain key v where entry: "entry = (key, v)" by (cases entry)
  consider (unsupported) "\<not> supportedType v"
    | (long) "supportedType v" "128 < length key"
    | (short) "supportedType v" "length key \<le> 128"
    by linarith
  then show ?case
  proof cases
    case unsupported
    then show ?thesis
      using Cons.IH[of m dropped]
      by (simp add: entry copyAttributesLoop_unsupported lengthRejected_def stored_def del: copyAttributesLoop.simps)
  next
    case long
    then show ?thesis
      using Cons.IH[of m "dropped + 1"]
      by (simp add: entry copyAttributesLoop_long lengthRejected_def stored_def add.assoc del: copyAttributesLoop.simps)
  next
    case short
    then obtain av where av: "copyAttributesLoop ((key, v) # rest) m dropped =
        copyAttributesLoop rest (m(key \<mapsto> av)) dropped"
      using copyAttributesLoop_stored by blast
    from Cons.IH[of "m(key \<mapsto> av)" dropped] obtain m' where m':
      "copyAttributesLoop rest (m(key \<mapsto> av)) dropped = Inr (m', dropped + of_nat (length (lengthRejected rest)))"
      "dom m' = dom (m(key \<mapsto> av)) \<union> fst ` set (stored rest)"
      "\<forall>k. k \<notin> fst ` set (stored rest) \<longrightarrow> m' k = (m(key \<mapsto> av)) k"
      by blast
    have "lengthRejected (entry # rest) = lengthRejected rest" "stored (entry # rest) = entry # stored rest"
      using short by (simp_all add: entry lengthRejected_def stored_def)
    with m' av show ?thesis
      by (auto simp: entry simp del: copyAttributesLoop.simps)
  qed
qed

lemma copyAttributes_empty: "copyAttributes out [] = Inr out"
  by (simp add: copyAttributes_def)

lemma copyAttributes_result:
  assumes "inp \<noteq> []"
  shows "\<exists>a. copyAttributes out inp = Inr (Some a) \<and>
           DroppedAttributesCount a = of_nat (length (lengthRejected inp)) \<and>
           dom (attributeMapOf (Some a)) = dom (attributeMapOf out) \<union> fst ` set (stored inp) \<and>
           (\<forall>key. key \<notin> fst ` set (stored inp) \<longrightarrow> attributeMapOf (Some a) key = attributeMapOf out key)"
proof -
  from copyAttributesLoop_result[of inp "attributeMapOf out" 0] obtain m' where
    "copyAttributesLoop inp (attributeMapOf out) 0 = Inr (m', of_nat (length (lengthRejected inp)))"
    "dom m' = dom (attributeMapOf out) \<union> fst ` set (stored inp)"
    "\<forall>key. key \<notin> fst ` set (stored inp) \<longrightarrow> m' key = attributeMapOf out key"
    by auto
  then show ?thesis
    using assms
    by (cases out) (auto simp: copyAttributes_def attributeMapOf_def Let_def split: option.splits)
qed

lemma copyAttributes_Inr: "copyAttributes None inp = Inr (copied inp)"
proof (cases "inp = []")
  case True
  then show ?thesis by (simp add: copied_def copyAttributes_empty)
next
  case False
  then obtain a where "copyAttributes None inp = Inr (Some a)"
    using copyAttributes_result[of inp None] by blast
  then show ?thesis by (simp add: copied_def)
qed

lemma card_stored_keys:
  "distinct (map fst inp) \<Longrightarrow> card (fst ` set (stored inp)) = length (stored inp)"
proof -
  assume "distinct (map fst inp)"
  then have "distinct (map fst (stored inp))"
    unfolding stored_def by (rule distinct_map_filter)
  then show ?thesis
    by (metis distinct_card length_map set_map)
qed

lemma length_stored_rejected:
  "length (stored inp) + length (lengthRejected inp) = length (filter (\<lambda>(key, v). supportedType v) inp)"
  by (induction inp) (auto simp: stored_def lengthRejected_def)

lemma sint_of_nat_int32: "n < 2 ^ 31 \<Longrightarrow> sint (of_nat n :: int32) = int n"
proof -
  assume "n < 2 ^ 31"
  then have "int n < 2 ^ 31" by (metis of_nat_less_numeral_power_cancel_iff)
  then have "signed_take_bit 31 (int n) = int n"
    by (intro signed_take_bit_int_eq_self) simp_all
  then show ?thesis
    by (simp add: signed_of_nat)
qed

lemma long_key_not_stored: "128 < length key \<Longrightarrow> key \<notin> fst ` set (stored inp)"
  by (auto simp: stored_def)

lemma unsupported_not_stored:
  "distinct (map fst inp) \<Longrightarrow> (key, v) \<in> set inp \<Longrightarrow> \<not> supportedType v \<Longrightarrow>
   key \<notin> fst ` set (stored inp)"
proof
  assume d: "distinct (map fst inp)" and e: "(key, v) \<in> set inp" and u: "\<not> supportedType v"
    and "key \<in> fst ` set (stored inp)"
  then obtain v' where v': "(key, v') \<in> set inp" "supportedType v'"
    by (auto simp: stored_def)
  from d e v'(1) have "v = v'" by (rule eq_key_imp_eq_value)
  with u v'(2) show False by simp
qed

subsection \<open>Claim C5\<close>

text \<open>
  The claim as the specification states it counts every entry whose key is longer than 128
  bytes. The type switch of the source runs first and its \<^verbatim>\<open>default\<close> case leaves the
  iteration before the key is looked at: an entry with a key of 129 bytes and a value of
  another type is dropped and the count stays 0.
\<close>

theorem copyAttributes_long_key_counterexample:
  "copyAttributes None [(replicate 129 0x61, IsOther)] =
     Inr (Some \<lparr>AttributeMap = Some Map.empty, DroppedAttributesCount = 0\<rparr>) \<and>
   128 < length (replicate 129 (0x61 :: byte))"
  by (simp add: copyAttributes_def attributeValue_def)

text \<open>
  C5, amended. In \<^verbatim>\<open>copyAttributes\<close>, for every attribute entry: if the runtime value
  of the entry is not a boolean, 64-bit integer or string, the iteration ends there and the
  dropped-attribute count is not incremented; if the value has one of these types and
  the key is longer than 128 bytes, the iteration ends with the count incremented and
  nothing stored. After the loop the dropped-attribute count is exactly the number of
  entries rejected for the length of their key, those of a supported type with a key
  longer than 128 bytes (as an \<^verbatim>\<open>int32\<close>: below \<open>2\<^sup>3\<^sup>1\<close> such entries it is that number), and
  the attribute map is unchanged at every key that is not the key of a stored entry.
\<close>

theorem copyAttributes_entries:
  "(\<not> supportedType v \<longrightarrow>
      copyAttributesLoop ((key, v) # rest) m dropped = copyAttributesLoop rest m dropped) \<and>
   (supportedType v \<and> 128 < length key \<longrightarrow>
      copyAttributesLoop ((key, v) # rest) m dropped = copyAttributesLoop rest m (dropped + 1)) \<and>
   (inp \<noteq> [] \<longrightarrow>
      (\<exists>a. copyAttributes out inp = Inr (Some a) \<and>
           DroppedAttributesCount a = of_nat (length (lengthRejected inp)) \<and>
           (length (lengthRejected inp) < 2 ^ 31 \<longrightarrow>
              sint (DroppedAttributesCount a) = int (length (lengthRejected inp))) \<and>
           (\<forall>k. k \<notin> fst ` set (stored inp) \<longrightarrow>
              attributeMapOf (Some a) k = attributeMapOf out k)))"
proof (intro conjI impI)
  assume "\<not> supportedType v"
  then show "copyAttributesLoop ((key, v) # rest) m dropped = copyAttributesLoop rest m dropped"
    by (rule copyAttributesLoop_unsupported)
next
  assume "supportedType v \<and> 128 < length key"
  then show "copyAttributesLoop ((key, v) # rest) m dropped
      = copyAttributesLoop rest m (dropped + 1)"
    by (simp add: copyAttributesLoop_long del: copyAttributesLoop.simps)
next
  assume "inp \<noteq> []"
  from copyAttributes_result[OF this, of out] obtain a where a:
    "copyAttributes out inp = Inr (Some a)"
    "DroppedAttributesCount a = of_nat (length (lengthRejected inp))"
    "\<forall>k. k \<notin> fst ` set (stored inp) \<longrightarrow> attributeMapOf (Some a) k = attributeMapOf out k"
    by blast
  from a(2) have "length (lengthRejected inp) < 2 ^ 31 \<longrightarrow>
      sint (DroppedAttributesCount a) = int (length (lengthRejected inp))"
    by (simp add: sint_of_nat_int32)
  with a show "\<exists>a. copyAttributes out inp = Inr (Some a) \<and>
           DroppedAttributesCount a = of_nat (length (lengthRejected inp)) \<and>
           (length (lengthRejected inp) < 2 ^ 31 \<longrightarrow>
              sint (DroppedAttributesCount a) = int (length (lengthRejected inp))) \<and>
           (\<forall>k. k \<notin> fst ` set (stored inp) \<longrightarrow>
              attributeMapOf (Some a) k = attributeMapOf out k)"
    by blast
qed

text \<open>
  Three entries: a floating-point value under the key \<^verbatim>\<open>"f"\<close>, a boolean under a key of
  130 bytes, an integer under the key \<^verbatim>\<open>"n"\<close>. Only the last is stored; the count is 1.
\<close>

theorem copyAttributes_entries_witness:
  "\<not> supportedType IsOther \<and>
   copyAttributesLoop [([0x66], IsOther)] Map.empty 0 = copyAttributesLoop [] Map.empty 0 \<and>
   supportedType (IsBool True) \<and> 128 < length (replicate 130 (0x6B :: byte)) \<and>
   copyAttributesLoop [(replicate 130 0x6B, IsBool True)] Map.empty 0
     = copyAttributesLoop [] Map.empty (0 + 1) \<and>
   [([0x66 :: byte], IsOther), (replicate 130 0x6B, IsBool True), ([0x6E], IsInt64 7)] \<noteq> [] \<and>
   copyAttributes None
       [([0x66], IsOther), (replicate 130 0x6B, IsBool True), ([0x6E], IsInt64 7)] =
     Inr (Some \<lparr>AttributeMap = Some [[0x6E] \<mapsto> AttributeValue_IntValue 7],
                DroppedAttributesCount = 1\<rparr>)"
proof -
  let ?inp = "[([0x66 :: byte], IsOther), (replicate 130 0x6B, IsBool True), ([0x6E], IsInt64 7)]"
  have u: "\<not> supportedType IsOther" by (simp add: supportedType_def)
  have l: "supportedType (IsBool True) \<and> 128 < length (replicate 130 (0x6B :: byte))"
    by (simp add: supportedType_def)
  have n: "?inp \<noteq> []" by simp
  from copyAttributes_entries[of IsOther "[0x66]" "[]" Map.empty 0] u
  have c1: "copyAttributesLoop [([0x66], IsOther)] Map.empty 0
      = copyAttributesLoop [] Map.empty 0"
    by blast
  from copyAttributes_entries[of "IsBool True" "replicate 130 0x6B" "[]" Map.empty 0] l
  have c2: "copyAttributesLoop [(replicate 130 0x6B, IsBool True)] Map.empty 0
      = copyAttributesLoop [] Map.empty (0 + 1)"
    by blast
  have v: "copyAttributes None ?inp =
     Inr (Some \<lparr>AttributeMap = Some [[0x6E] \<mapsto> AttributeValue_IntValue 7],
                DroppedAttributesCount = 1\<rparr>)"
    by (simp add: copyAttributes_def attributeValue_def)
  from u c1 l c2 n v show ?thesis by blast
qed

subsection \<open>Claim C10\<close>

lemma longKeys_rejected:
  "lengthRejected (map (\<lambda>i. (replicate (129 + i) c, IsBool b)) xs)
     = map (\<lambda>i. (replicate (129 + i) c, IsBool b)) xs"
  unfolding lengthRejected_def by (induction xs) (simp_all add: supportedType_def)

lemma longKeys_distinct:
  "distinct xs \<Longrightarrow> distinct (map fst (map (\<lambda>i. (replicate (129 + i) c, IsBool b)) xs))"
proof -
  assume d: "distinct xs"
  have "inj (\<lambda>i :: nat. replicate (129 + i) c)"
  proof (rule injI)
    fix x y :: nat
    assume "replicate (129 + x) c = replicate (129 + y) c"
    then have "length (replicate (129 + x) c) = length (replicate (129 + y) c)" by simp
    then show "x = y" by simp
  qed
  then have "distinct (map (\<lambda>i. replicate (129 + i) c) xs)"
    using d by (simp add: distinct_map inj_on_def inj_def)
  then show ?thesis by (simp add: comp_def)
qed

text \<open>
  The claim as stated gives the final dropped count as the number of long-keyed entries
  of a supported type, without a bound. The counter of the source is \<^verbatim>\<open>var dropped int32\<close>,
  incremented with no check: on the map \<^const>\<open>manyLongKeys\<close>, whose \<open>2\<^sup>3\<^sup>1\<close> entries all have
  a long key and a boolean value, the count comes out as \<open>-2\<^sup>3\<^sup>1\<close>.
\<close>

theorem copyAttributes_count_counterexample:
  "(case copyAttributes None manyLongKeys of
      Inr (Some a) \<Rightarrow> sint (DroppedAttributesCount a) = - 2147483648
    | _ \<Rightarrow> False) \<and>
   length (filter (\<lambda>(key, v). 128 < length key \<and> supportedType v) manyLongKeys) = 2147483648 \<and>
   distinct (map fst manyLongKeys)"
proof -
  have rej: "lengthRejected manyLongKeys = manyLongKeys"
    unfolding manyLongKeys_def by (rule longKeys_rejected)
  have len: "length manyLongKeys = 2147483648"
    unfolding manyLongKeys_def by (simp only: length_map length_upt diff_zero)
  have ne: "manyLongKeys \<noteq> []"
    using len by auto
  from copyAttributes_result[OF ne, of None] obtain a where a:
    "copyAttributes None manyLongKeys = Inr (Some a)"
    "DroppedAttributesCount a = of_nat (length (lengthRejected manyLongKeys))"
    by blast
  have "sint (DroppedAttributesCount a) = - 2147483648"
    unfolding a(2) rej len by simp
  then have c: "(case copyAttributes None manyLongKeys of
      Inr (Some a) \<Rightarrow> sint (DroppedAttributesCount a) = - 2147483648
    | _ \<Rightarrow> False)"
    by (simp add: a(1))
  have eq: "filter (\<lambda>(key, v). 128 < length key \<and> supportedType v) manyLongKeys
      = lengthRejected manyLongKeys"
    unfolding lengthRejected_def by (rule filter_cong) auto
  have n: "length (filter (\<lambda>(key, v). 128 < length key \<and> supportedType v) manyLongKeys)
      = 2147483648"
    unfolding eq rej by (rule len)
  have d: "distinct (map fst manyLongKeys)"
    unfolding manyLongKeys_def by (rule longKeys_distinct) (rule distinct_upt)
  from c n d show ?thesis by (intro conjI)
qed

text \<open>
  C10, amended. In \<^verbatim>\<open>copyAttributes\<close>, an entry whose key is longer than 128 bytes and
  whose value is not a boolean, 64-bit integer or string ends its iteration in the type
  switch, before the key-length check: the count is not incremented. No entry with a key
  longer than 128 bytes is stored. The final dropped count is the number of entries with
  a key longer than 128 bytes and a value of a supported type as long as that number is
  below \<open>2\<^sup>3\<^sup>1\<close>; in general the count, an \<^verbatim>\<open>int32\<close>, is the image of that number in the
  32-bit integers.
\<close>

theorem copyAttributes_type_check_first:
  "(128 < length key \<and> \<not> supportedType v \<longrightarrow>
      copyAttributesLoop ((key, v) # rest) m dropped = copyAttributesLoop rest m dropped) \<and>
   (inp \<noteq> [] \<longrightarrow>
      (\<exists>a. copyAttributes out inp = Inr (Some a) \<and>
           DroppedAttributesCount a =
             of_nat (length (filter (\<lambda>(key, v). 128 < length key \<and> supportedType v) inp)) \<and>
           (length (filter (\<lambda>(key, v). 128 < length key \<and> supportedType v) inp) < 2 ^ 31 \<longrightarrow>
              sint (DroppedAttributesCount a) =
                int (length (filter (\<lambda>(key, v). 128 < length key \<and> supportedType v) inp))) \<and>
           (\<forall>(key, v) \<in> set inp. 128 < length key \<longrightarrow>
              attributeMapOf (Some a) key = attributeMapOf out key)))"
proof (intro conjI impI)
  assume "128 < length key \<and> \<not> supportedType v"
  then show "copyAttributesLoop ((key, v) # rest) m dropped = copyAttributesLoop rest m dropped"
    by (simp add: copyAttributesLoop_unsupported del: copyAttributesLoop.simps)
next
  let ?n = "length (filter (\<lambda>(key, v). 128 < length key \<and> supportedType v) inp)"
  have eq: "lengthRejected inp = filter (\<lambda>(key, v). 128 < length key \<and> supportedType v) inp"
    unfolding lengthRejected_def by (rule filter_cong) auto
  assume "inp \<noteq> []"
  from copyAttributes_result[OF this, of out] obtain a where a:
    "copyAttributes out inp = Inr (Some a)"
    "DroppedAttributesCount a = of_nat (length (lengthRejected inp))"
    "\<forall>k. k \<notin> fst ` set (stored inp) \<longrightarrow> attributeMapOf (Some a) k = attributeMapOf out k"
    by blast
  from a(2) have count: "DroppedAttributesCount a = of_nat ?n" by (simp add: eq)
  then have exact: "?n < 2 ^ 31 \<longrightarrow> sint (DroppedAttributesCount a) = int ?n"
    by (simp add: sint_of_nat_int32)
  have "\<forall>(key, v) \<in> set inp. 128 < length key \<longrightarrow>
      attributeMapOf (Some a) key = attributeMapOf out key"
    using a(3) long_key_not_stored by blast
  with a(1) count exact
  show "\<exists>a. copyAttributes out inp = Inr (Some a) \<and>
           DroppedAttributesCount a = of_nat ?n \<and>
           (?n < 2 ^ 31 \<longrightarrow> sint (DroppedAttributesCount a) = int ?n) \<and>
           (\<forall>(key, v) \<in> set inp. 128 < length key \<longrightarrow>
              attributeMapOf (Some a) key = attributeMapOf out key)"
    by blast
qed

text \<open>
  Two keys of more than 128 bytes, the first with a floating-point value, the second with
  a string: the count is 1 and neither key is stored.
\<close>

theorem copyAttributes_type_check_first_witness:
  "128 < length (replicate 129 (0x61 :: byte)) \<and> \<not> supportedType IsOther \<and>
   copyAttributesLoop [(replicate 129 0x61, IsOther)] Map.empty 0
     = copyAttributesLoop [] Map.empty 0 \<and>
   [(replicate 129 (0x61 :: byte), IsOther), (replicate 130 0x62, IsString [0x78])] \<noteq> [] \<and>
   length (filter (\<lambda>(key, v). 128 < length key \<and> supportedType v)
     [(replicate 129 (0x61 :: byte), IsOther), (replicate 130 0x62, IsString [0x78])]) = 1 \<and>
   copyAttributes None [(replicate 129 0x61, IsOther), (replicate 130 0x62, IsString [0x78])] =
     Inr (Some \<lparr>AttributeMap = Some Map.empty, DroppedAttributesCount = 1\<rparr>)"
proof -
  let ?inp = "[(replicate 129 (0x61 :: byte), IsOther), (replicate 130 0x62, IsString [0x78])]"
  let ?n = "length (filter (\<lambda>(key, v). 128 < length key \<and> supportedType v) ?inp)"
  have h: "128 < length (replicate 129 (0x61 :: byte)) \<and> \<not> supportedType IsOther"
    by (simp add: supportedType_def)
  have n: "?inp \<noteq> []" by simp
  have one: "?n = 1" by (simp add: supportedType_def)
  from copyAttributes_type_check_first[of "replicate 129 0x61" IsOther "[]" Map.empty 0] h
  have c1: "copyAttributesLoop [(replicate 129 0x61, IsOther)] Map.empty 0
      = copyAttributesLoop [] Map.empty 0"
    by blast
  from copyAttributes_type_check_first[of _ _ _ _ _ ?inp None] n
  obtain a where a: "copyAttributes None ?inp = Inr (Some a)"
    "DroppedAttributesCount a = of_nat ?n"
    by blast
  have "copyAttributes None ?inp =
     Inr (Some \<lparr>AttributeMap = Some Map.empty, DroppedAttributesCount = 1\<rparr>)"
    by (simp add: copyAttributes_def attributeValue_def trunc_def)
  with h c1 n one show ?thesis by blast
qed

section \<open>Properties of the loops of \<^verbatim>\<open>protoFromSpanData\<close>\<close>

text \<open>
  Each loop in closed form: what it appends and what it counts, from any state that it
  can be entered in.
\<close>

declare framesLoop.simps [simp del]

lemma appendTimeEvents_Nil: "appendTimeEvents te [] = te"
  by (simp add: appendTimeEvents_def)

lemma appendTimeEvents_Cons:
  "appendTimeEvents (appendTimeEvents te [ev]) evs = appendTimeEvents te (ev # evs)"
  by (cases te) (simp_all add: appendTimeEvents_def)

lemma annotationsLoop_result:
  assumes "annotations \<le> maxAnnotationEventsPerSpan"
  shows "annotationsLoop as' i n te annotations dropped =
     Inr (appendTimeEvents te (map annotationEvent (take (nat (maxAnnotationEventsPerSpan - annotations)) as')),
          annotations + int (min (nat (maxAnnotationEventsPerSpan - annotations)) (length as')),
          if nat (maxAnnotationEventsPerSpan - annotations) < length as'
          then n - (i + (maxAnnotationEventsPerSpan - annotations)) else dropped)"
  using assms
proof (induction as' arbitrary: i te annotations dropped)
  case Nil
  show ?case by (simp add: appendTimeEvents_Nil)
next
  case (Cons a rest)
  show ?case
  proof (cases "annotations \<ge> maxAnnotationEventsPerSpan")
    case True
    with Cons.prems have "annotations = maxAnnotationEventsPerSpan" by simp
    then show ?thesis by (simp add: appendTimeEvents_Nil)
  next
    case False
    then have c: "nat (maxAnnotationEventsPerSpan - annotations)
        = Suc (nat (maxAnnotationEventsPerSpan - (annotations + 1)))"
      by simp
    have step: "annotationsLoop (a # rest) i n te annotations dropped =
        annotationsLoop rest (i + 1) n (appendTimeEvents te [annotationEvent a]) (annotations + 1) dropped"
      using False
      by (cases te) (simp_all add: trunc_Inr copyAttributes_Inr annotationEvent_def appendTimeEvents_def)
    have le: "annotations + 1 \<le> maxAnnotationEventsPerSpan" using False by simp
    show ?thesis
      unfolding step Cons.IH[OF le] c
      by (auto simp: appendTimeEvents_Cons)
  qed
qed

lemma messageEventsLoop_result:
  assumes "messageEvents \<le> maxMessageEventsPerSpan"
  shows "messageEventsLoop es i n te messageEvents dropped =
     (appendTimeEvents te (map messageEvent (take (nat (maxMessageEventsPerSpan - messageEvents)) es)),
      messageEvents + int (min (nat (maxMessageEventsPerSpan - messageEvents)) (length es)),
      if nat (maxMessageEventsPerSpan - messageEvents) < length es
      then n - (i + (maxMessageEventsPerSpan - messageEvents)) else dropped)"
  using assms
proof (induction es arbitrary: i te messageEvents dropped)
  case Nil
  show ?case by (simp add: appendTimeEvents_Nil)
next
  case (Cons e rest)
  show ?case
  proof (cases "messageEvents \<ge> maxMessageEventsPerSpan")
    case True
    with Cons.prems have "messageEvents = maxMessageEventsPerSpan" by simp
    then show ?thesis by (simp add: appendTimeEvents_Nil)
  next
    case False
    then have c: "nat (maxMessageEventsPerSpan - messageEvents)
        = Suc (nat (maxMessageEventsPerSpan - (messageEvents + 1)))"
      by simp
    have step: "messageEventsLoop (e # rest) i n te messageEvents dropped =
        messageEventsLoop rest (i + 1) n (appendTimeEvents te [messageEvent e]) (messageEvents + 1) dropped"
      using False
      by (cases te) (simp_all add: messageEvent_def appendTimeEvents_def Let_def)
    have le: "messageEvents + 1 \<le> maxMessageEventsPerSpan" using False by simp
    show ?thesis
      unfolding step Cons.IH[OF le] c
      by (auto simp: appendTimeEvents_Cons)
  qed
qed

lemma timeEventsOf_result:
  "\<exists>te. timeEventsOf as' es = Inr (te, int (length (drop 32 as')), int (length (drop 128 es))) \<and>
        (case te of None \<Rightarrow> [] | Some t \<Rightarrow> TimeEvent t) =
          map annotationEvent (take 32 as') @ map messageEvent (take 128 es) \<and>
        (case te of None \<Rightarrow> 0 | Some t \<Rightarrow> DroppedAnnotationsCount t) =
          clip32 (int (length (drop 32 as'))) \<and>
        (case te of None \<Rightarrow> 0 | Some t \<Rightarrow> DroppedMessageEventsCount t) =
          clip32 (int (length (drop 128 es)))"
proof -
  let ?A = "map annotationEvent (take 32 as')" and ?M = "map messageEvent (take 128 es)"
  let ?te1 = "appendTimeEvents None ?A"
  let ?te2 = "appendTimeEvents ?te1 ?M"
  let ?dA = "int (length (drop 32 as'))" and ?dM = "int (length (drop 128 es))"
  have a: "annotationsLoop as' 0 (int (length as')) None 0 0 =
      Inr (?te1, int (min 32 (length as')), ?dA)"
    by (subst annotationsLoop_result) (auto simp: maxAnnotationEventsPerSpan_def)
  have m: "messageEventsLoop es 0 (int (length es)) ?te1 0 0 =
      (?te2, int (min 128 (length es)), ?dM)"
    by (subst messageEventsLoop_result) (auto simp: maxMessageEventsPerSpan_def)
  have events: "(case ?te2 of None \<Rightarrow> [] | Some t \<Rightarrow> TimeEvent t) = ?A @ ?M"
    by (simp add: appendTimeEvents_def Let_def)
  have zero: "clip32 0 = 0" by (simp add: clip32_def MinInt32_def MaxInt32_def)
  have untouchedA: "(case ?te2 of None \<Rightarrow> 0 | Some t \<Rightarrow> DroppedAnnotationsCount t) = 0"
    by (simp add: appendTimeEvents_def Let_def)
  have untouchedM: "(case ?te2 of None \<Rightarrow> 0 | Some t \<Rightarrow> DroppedMessageEventsCount t) = 0"
    by (simp add: appendTimeEvents_def Let_def)
  let ?base = "case ?te2 of
                 None \<Rightarrow> \<lparr>TimeEvent = [], DroppedAnnotationsCount = 0,
                           DroppedMessageEventsCount = 0\<rparr>
               | Some t \<Rightarrow> t"
  have tof: "timeEventsOf as' es =
      (if ?dA \<noteq> 0 \<or> ?dM \<noteq> 0 then
         Inr (Some (?base\<lparr>DroppedAnnotationsCount := clip32 ?dA,
                           DroppedMessageEventsCount := clip32 ?dM\<rparr>), ?dA, ?dM)
       else Inr (?te2, ?dA, ?dM))"
    by (simp only: timeEventsOf_def a m sum.case prod.case Let_def)
  have base: "TimeEvent ?base = ?A @ ?M"
    using events by (cases ?te2) simp_all
  show ?thesis
  proof (cases "?dA \<noteq> 0 \<or> ?dM \<noteq> 0")
    case True
    then have "timeEventsOf as' es =
        Inr (Some (?base\<lparr>DroppedAnnotationsCount := clip32 ?dA,
                          DroppedMessageEventsCount := clip32 ?dM\<rparr>), ?dA, ?dM)"
      by (simp only: tof if_True)
    with base show ?thesis by simp
  next
    case False
    then have "timeEventsOf as' es = Inr (?te2, ?dA, ?dM)"
      by (simp only: tof if_False)
    moreover from False have "clip32 ?dA = 0" "clip32 ?dM = 0"
      using zero by simp_all
    ultimately show ?thesis
      using events untouchedA untouchedM by simp
  qed
qed

lemma framesLoop_step:
  "framesLoop (f # g # rest) sf dropped =
     (if int (length sf) \<ge> 128 then framesLoop (g # rest) sf (dropped + 1)
      else framesLoop (g # rest) (sf @ [stackFrame f]) dropped)"
  by (subst framesLoop.simps) (simp add: trunc_Inr stackFrame_def)

lemma framesLoop_last:
  "framesLoop [f] sf dropped =
     (if int (length sf) \<ge> 128 then Inr (sf, dropped + 1)
      else Inr (sf @ [stackFrame f], dropped))"
  by (subst framesLoop.simps) (simp add: trunc_Inr stackFrame_def)

lemma framesLoop_none:
  "framesLoop [] sf dropped =
     (if int (length sf) \<ge> 128 then Inr (sf, dropped + 1)
      else Inr (sf @ [stackFrame zeroFrame], dropped))"
  by (subst framesLoop.simps) (simp add: trunc_Inr stackFrame_def)

lemma framesLoop_result:
  assumes "frames \<noteq> []"
  shows "framesLoop frames sf dropped =
     Inr (sf @ map stackFrame (take (128 - length sf) frames),
          dropped + int (length (drop (128 - length sf) frames)))"
  using assms
proof (induction frames arbitrary: sf dropped)
  case Nil
  then show ?case by simp
next
  case (Cons f rest)
  show ?case
  proof (cases rest)
    case Nil
    then show ?thesis by (auto simp: framesLoop_last)
  next
    case (Cons g rest')
    have ne: "rest \<noteq> []" using Cons by simp
    show ?thesis
    proof (cases "int (length sf) \<ge> 128")
      case True
      then have "128 - length sf = 0" by simp
      with True show ?thesis
        using Cons.IH[OF ne, of sf "dropped + 1"] by (simp add: Cons framesLoop_step)
    next
      case False
      then have c: "128 - length sf = Suc (128 - length (sf @ [stackFrame f]))" by simp
      from False show ?thesis
        using Cons.IH[OF ne, of "sf @ [stackFrame f]" dropped]
        unfolding c by (simp add: Cons framesLoop_step)
    qed
  qed
qed

lemma stackTraceOf_result:
  "stackTraceOf None = Inr None"
  "stackTraceOf (Some []) =
     Inr (Some \<lparr>StackFrames = \<lparr>sf_Frame = [stackFrame zeroFrame], DroppedFramesCount = 0\<rparr>\<rparr>)"
  "frames \<noteq> [] \<Longrightarrow> stackTraceOf (Some frames) =
     Inr (Some \<lparr>StackFrames =
       \<lparr>sf_Frame = map stackFrame (take 128 frames),
        DroppedFramesCount = clip32 (int (length (drop 128 frames)))\<rparr>\<rparr>)"
  by (simp_all add: stackTraceOf_def framesLoop_none framesLoop_result clip32_def MinInt32_def MaxInt32_def)

lemma stackTraceOf_Inr: "\<exists>st. stackTraceOf pcs = Inr st"
proof (cases pcs)
  case None
  then show ?thesis by (simp add: stackTraceOf_result)
next
  case (Some frames)
  then show ?thesis by (cases "frames = []") (simp_all add: stackTraceOf_result)
qed

lemma linksLoop_Inr: "\<exists>links'. linksLoop ls projectID links = Inr links'"
  by (induction ls arbitrary: links) (simp_all add: copyAttributes_Inr)

lemma linksOf_Inr: "\<exists>ln. linksOf ls projectID = Inr ln"
  using linksLoop_Inr[of ls projectID "[]"] by (auto simp: linksOf_def)

lemma protoFromSpanData_nil: "protoFromSpanData None projectID = Inr None"
  by (simp add: protoFromSpanData_def)

lemma protoFromSpanData_result:
  "\<exists>sp te st ln.
     protoFromSpanData (Some s) projectID = Inr (Some sp) \<and>
     timeEventsOf (s_Annotations s) (s_MessageEvents s) =
       Inr (te, int (length (drop 32 (s_Annotations s))), int (length (drop 128 (s_MessageEvents s)))) \<and>
     stackTraceOf (s_StackTrace s) = Inr st \<and>
     linksOf (s_Links s) projectID = Inr ln \<and>
     sp_DisplayName sp = truncated (s_Name s) 128 \<and>
     sp_Attributes sp = copied (s_Attributes s) \<and>
     sp_TimeEvents sp = te \<and> sp_StackTrace sp = st \<and> sp_Links sp = ln"
proof -
  obtain te where te: "timeEventsOf (s_Annotations s) (s_MessageEvents s) =
      Inr (te, int (length (drop 32 (s_Annotations s))), int (length (drop 128 (s_MessageEvents s))))"
    using timeEventsOf_result[of "s_Annotations s" "s_MessageEvents s"] by blast
  obtain st where st: "stackTraceOf (s_StackTrace s) = Inr st"
    using stackTraceOf_Inr by blast
  obtain ln where ln: "linksOf (s_Links s) projectID = Inr ln"
    using linksOf_Inr by blast
  show ?thesis
    by (simp add: protoFromSpanData_def Let_def trunc_Inr copyAttributes_Inr te st ln)
qed

section \<open>Properties of \<^verbatim>\<open>protoFromSpanData\<close>\<close>

lemma isAnnotation_events:
  "filter isAnnotation (map annotationEvent xs @ map messageEvent ys) = map annotationEvent xs"
  "filter isMessageEvent (map annotationEvent xs @ map messageEvent ys) = map messageEvent ys"
  by (induction xs) (simp_all add: isAnnotation_def isMessageEvent_def annotationEvent_def
      messageEvent_def filter_map comp_def)

lemma span_readings:
  assumes "protoFromSpanData (Some s) projectID = Inr (Some sp)"
  shows "emittedEvents sp = map annotationEvent (take 32 (s_Annotations s))
           @ map messageEvent (take 128 (s_MessageEvents s))"
    and "timeEventsOf (s_Annotations s) (s_MessageEvents s) =
           Inr (sp_TimeEvents sp, int (length (drop 32 (s_Annotations s))),
                int (length (drop 128 (s_MessageEvents s))))"
    and "droppedAnnotations sp = clip32 (int (length (drop 32 (s_Annotations s))))"
    and "droppedMessageEvents sp = clip32 (int (length (drop 128 (s_MessageEvents s))))"
    and "sp_Attributes sp = copied (s_Attributes s)"
    and "stackTraceOf (s_StackTrace s) = Inr (sp_StackTrace sp)"
proof -
  from protoFromSpanData_result[of s projectID] assms
  have te: "timeEventsOf (s_Annotations s) (s_MessageEvents s) =
       Inr (sp_TimeEvents sp, int (length (drop 32 (s_Annotations s))),
            int (length (drop 128 (s_MessageEvents s))))"
    and at: "sp_Attributes sp = copied (s_Attributes s)"
    and st: "stackTraceOf (s_StackTrace s) = Inr (sp_StackTrace sp)"
    by auto
  from timeEventsOf_result[of "s_Annotations s" "s_MessageEvents s"] te
  show "emittedEvents sp = map annotationEvent (take 32 (s_Annotations s))
           @ map messageEvent (take 128 (s_MessageEvents s))"
    and "droppedAnnotations sp = clip32 (int (length (drop 32 (s_Annotations s))))"
    and "droppedMessageEvents sp = clip32 (int (length (drop 128 (s_MessageEvents s))))"
    by (auto simp: emittedEvents_def droppedAnnotations_def droppedMessageEvents_def)
  show "timeEventsOf (s_Annotations s) (s_MessageEvents s) =
           Inr (sp_TimeEvents sp, int (length (drop 32 (s_Annotations s))),
                int (length (drop 128 (s_MessageEvents s))))"
    by (rule te)
  show "sp_Attributes sp = copied (s_Attributes s)" by (rule at)
  show "stackTraceOf (s_StackTrace s) = Inr (sp_StackTrace sp)" by (rule st)
qed

lemma protoFromSpanData_Some: "\<exists>sp. protoFromSpanData (Some s) projectID = Inr (Some sp)"
  using protoFromSpanData_result[of s projectID] by blast

subsection \<open>Claim C1\<close>

lemma sint_dropped: "sint (clip32 (int (length xs))) = min (int (length xs)) 2147483647"
  by (subst sint_clip32_count) (simp_all add: MaxInt32_def)

text \<open>
  The claim as the specification states it has the dropped count of the encoded output
  equal to the number of items from the index of the cap to the end of the list. The loop
  records that number, but the output receives it through \<^verbatim>\<open>clip32\<close>: the span
  \<^const>\<open>hugeSpan\<close> has \<open>2\<^sup>3\<^sup>1 + 32\<close> annotations, \<open>2\<^sup>3\<^sup>1\<close> of them from index 32 on, and the
  dropped count of its output is \<open>2\<^sup>3\<^sup>1 - 1\<close>.
\<close>

theorem timeEvents_dropped_counterexample:
  "(case protoFromSpanData (Some hugeSpan) (bytes ''shop'') of
      Inr (Some sp) \<Rightarrow> sint (droppedAnnotations sp) = 2147483647
    | _ \<Rightarrow> False) \<and>
   length (drop 32 (s_Annotations hugeSpan)) = 2147483648"
proof -
  obtain sp where sp: "protoFromSpanData (Some hugeSpan) (bytes ''shop'') = Inr (Some sp)"
    using protoFromSpanData_Some by blast
  have n: "length (drop 32 (s_Annotations hugeSpan)) = 2147483648"
    by (simp add: hugeSpan_def)
  have "sint (droppedAnnotations sp)
      = min (int (length (drop 32 (s_Annotations hugeSpan)))) 2147483647"
    unfolding span_readings(3)[OF sp] by (rule sint_dropped)
  then have "sint (droppedAnnotations sp) = 2147483647"
    unfolding n by simp
  then have "(case protoFromSpanData (Some hugeSpan) (bytes ''shop'') of
      Inr (Some sp) \<Rightarrow> sint (droppedAnnotations sp) = 2147483647
    | _ \<Rightarrow> False)"
    by (simp add: sp)
  with n show ?thesis by (intro conjI)
qed

text \<open>
  C1, amended. Once 32 annotations have been emitted, the loop over the annotations stops
  at the current index \<open>i\<close> and records \<open>len(as) - i\<close> as the dropped count; the loop over
  the message events does the same at 128. So, for every input span record, the time
  events of the encoded output are the first 32 annotations of the input, in their
  order, followed by its first 128 message events, in their order: at most 32 annotation
  time-events and at most 128 message-event time-events. All remaining items of each
  list are dropped as a block. The dropped count recorded for a list is the number of
  its items from the index of the cap to its end; the dropped count of the encoded
  output is that number saturated at the maximum 32-bit signed value \<open>2147483647\<close>.
\<close>

theorem timeEvents_capped:
  "annotationsLoop (a # as') i n te maxAnnotationEventsPerSpan d
     = Inr (te, maxAnnotationEventsPerSpan, n - i) \<and>
   messageEventsLoop (e # es) j m te' maxMessageEventsPerSpan d'
     = (te', maxMessageEventsPerSpan, m - j) \<and>
   (\<exists>sp. protoFromSpanData (Some s) projectID = Inr (Some sp) \<and>
      emittedEvents sp = map annotationEvent (take 32 (s_Annotations s))
                         @ map messageEvent (take 128 (s_MessageEvents s)) \<and>
      filter isAnnotation (emittedEvents sp) = map annotationEvent (take 32 (s_Annotations s)) \<and>
      filter isMessageEvent (emittedEvents sp) = map messageEvent (take 128 (s_MessageEvents s)) \<and>
      keptAnnotations sp \<le> 32 \<and> keptMessageEvents sp \<le> 128 \<and>
      timeEventsOf (s_Annotations s) (s_MessageEvents s) =
        Inr (sp_TimeEvents sp, int (length (drop 32 (s_Annotations s))),
             int (length (drop 128 (s_MessageEvents s)))) \<and>
      droppedAnnotations sp = clip32 (int (length (drop 32 (s_Annotations s)))) \<and>
      droppedMessageEvents sp = clip32 (int (length (drop 128 (s_MessageEvents s)))) \<and>
      sint (droppedAnnotations sp) = min (int (length (drop 32 (s_Annotations s)))) 2147483647 \<and>
      sint (droppedMessageEvents sp) =
        min (int (length (drop 128 (s_MessageEvents s)))) 2147483647)"
proof (intro conjI)
  show "annotationsLoop (a # as') i n te maxAnnotationEventsPerSpan d
     = Inr (te, maxAnnotationEventsPerSpan, n - i)"
    by simp
  show "messageEventsLoop (e # es) j m te' maxMessageEventsPerSpan d'
     = (te', maxMessageEventsPerSpan, m - j)"
    by simp
  obtain sp where sp: "protoFromSpanData (Some s) projectID = Inr (Some sp)"
    using protoFromSpanData_Some by blast
  note r = span_readings[OF sp]
  have f: "filter isAnnotation (emittedEvents sp) = map annotationEvent (take 32 (s_Annotations s))"
    "filter isMessageEvent (emittedEvents sp) = map messageEvent (take 128 (s_MessageEvents s))"
    unfolding r(1) by (rule isAnnotation_events)+
  from f have k: "keptAnnotations sp \<le> 32" "keptMessageEvents sp \<le> 128"
    by (simp_all add: keptAnnotations_def keptMessageEvents_def)
  have sa: "sint (droppedAnnotations sp) = min (int (length (drop 32 (s_Annotations s)))) 2147483647"
    unfolding r(3) by (rule sint_dropped)
  have sm: "sint (droppedMessageEvents sp) =
      min (int (length (drop 128 (s_MessageEvents s)))) 2147483647"
    unfolding r(4) by (rule sint_dropped)
  show "\<exists>sp. protoFromSpanData (Some s) projectID = Inr (Some sp) \<and>
      emittedEvents sp = map annotationEvent (take 32 (s_Annotations s))
                         @ map messageEvent (take 128 (s_MessageEvents s)) \<and>
      filter isAnnotation (emittedEvents sp) = map annotationEvent (take 32 (s_Annotations s)) \<and>
      filter isMessageEvent (emittedEvents sp) = map messageEvent (take 128 (s_MessageEvents s)) \<and>
      keptAnnotations sp \<le> 32 \<and> keptMessageEvents sp \<le> 128 \<and>
      timeEventsOf (s_Annotations s) (s_MessageEvents s) =
        Inr (sp_TimeEvents sp, int (length (drop 32 (s_Annotations s))),
             int (length (drop 128 (s_MessageEvents s)))) \<and>
      droppedAnnotations sp = clip32 (int (length (drop 32 (s_Annotations s)))) \<and>
      droppedMessageEvents sp = clip32 (int (length (drop 128 (s_MessageEvents s)))) \<and>
      sint (droppedAnnotations sp) = min (int (length (drop 32 (s_Annotations s)))) 2147483647 \<and>
      sint (droppedMessageEvents sp) =
        min (int (length (drop 128 (s_MessageEvents s)))) 2147483647"
    by (rule exI[of _ sp]) (intro conjI sp r(1) f k r(2) r(3) r(4) sa sm)
qed

text \<open>
  The example span has 40 annotations and 130 message events: 32 and 128 are emitted, 8
  and 2 are dropped. Reaching the cap at index 32 of 40 annotations, and at index 128 of
  130 message events, the loops record 8 and 2.
\<close>

theorem timeEvents_capped_witness:
  "annotationsLoop [exampleAnnotation] 32 40 None maxAnnotationEventsPerSpan 0
     = Inr (None, maxAnnotationEventsPerSpan, 8) \<and>
   messageEventsLoop [exampleMessageEvent] 128 130 None maxMessageEventsPerSpan 0
     = (None, maxMessageEventsPerSpan, 2) \<and>
   (\<exists>sp. protoFromSpanData (Some exampleSpan) (bytes ''shop'') = Inr (Some sp) \<and>
      emittedEvents sp = replicate 32 (annotationEvent exampleAnnotation)
                         @ replicate 128 (messageEvent exampleMessageEvent) \<and>
      keptAnnotations sp = 32 \<and> keptMessageEvents sp = 128 \<and>
      timeEventsOf (s_Annotations exampleSpan) (s_MessageEvents exampleSpan) =
        Inr (sp_TimeEvents sp, 8, 2) \<and>
      droppedAnnotations sp = 8 \<and> droppedMessageEvents sp = 2 \<and>
      sint (droppedAnnotations sp) = 8 \<and> sint (droppedMessageEvents sp) = 2)"
proof -
  note t = timeEvents_capped[of exampleAnnotation "[]" 32 40 None 0 exampleMessageEvent "[]"
      128 130 None 0 exampleSpan "bytes ''shop''"]
  from t have l1: "annotationsLoop [exampleAnnotation] 32 40 None maxAnnotationEventsPerSpan 0
     = Inr (None, maxAnnotationEventsPerSpan, 8)"
    by simp
  from t have l2: "messageEventsLoop [exampleMessageEvent] 128 130 None maxMessageEventsPerSpan 0
     = (None, maxMessageEventsPerSpan, 2)"
    by simp
  from t obtain sp where sp: "protoFromSpanData (Some exampleSpan) (bytes ''shop'') = Inr (Some sp)"
    "emittedEvents sp = map annotationEvent (take 32 (s_Annotations exampleSpan))
                         @ map messageEvent (take 128 (s_MessageEvents exampleSpan))"
    "filter isAnnotation (emittedEvents sp) = map annotationEvent (take 32 (s_Annotations exampleSpan))"
    "filter isMessageEvent (emittedEvents sp) = map messageEvent (take 128 (s_MessageEvents exampleSpan))"
    "timeEventsOf (s_Annotations exampleSpan) (s_MessageEvents exampleSpan) =
        Inr (sp_TimeEvents sp, int (length (drop 32 (s_Annotations exampleSpan))),
             int (length (drop 128 (s_MessageEvents exampleSpan))))"
    "droppedAnnotations sp = clip32 (int (length (drop 32 (s_Annotations exampleSpan))))"
    "droppedMessageEvents sp = clip32 (int (length (drop 128 (s_MessageEvents exampleSpan))))"
    "sint (droppedAnnotations sp)
       = min (int (length (drop 32 (s_Annotations exampleSpan)))) 2147483647"
    "sint (droppedMessageEvents sp)
       = min (int (length (drop 128 (s_MessageEvents exampleSpan)))) 2147483647"
    by (elim conjE exE)
  have "clip32 8 = 8" "clip32 2 = 2" by (simp_all add: clip32_def MinInt32_def MaxInt32_def)
  with sp have "\<exists>sp. protoFromSpanData (Some exampleSpan) (bytes ''shop'') = Inr (Some sp) \<and>
      emittedEvents sp = replicate 32 (annotationEvent exampleAnnotation)
                         @ replicate 128 (messageEvent exampleMessageEvent) \<and>
      keptAnnotations sp = 32 \<and> keptMessageEvents sp = 128 \<and>
      timeEventsOf (s_Annotations exampleSpan) (s_MessageEvents exampleSpan) =
        Inr (sp_TimeEvents sp, 8, 2) \<and>
      droppedAnnotations sp = 8 \<and> droppedMessageEvents sp = 2 \<and>
      sint (droppedAnnotations sp) = 8 \<and> sint (droppedMessageEvents sp) = 2"
    by (intro exI[of _ sp]) (simp add: exampleSpan_def keptAnnotations_def keptMessageEvents_def)
  with l1 l2 show ?thesis by (intro conjI)
qed

subsection \<open>Claim C2\<close>

lemma kept_plus_dropped:
  "int (min (length xs) c) + sint (clip32 (int (length (drop c xs)))) =
     min (int (length xs)) (int (min (length xs) c) + 2147483647)"
proof -
  have "sint (clip32 (int (length (drop c xs)))) = min (int (length xs - c)) MaxInt32"
    by (subst sint_clip32_count) simp_all
  then show ?thesis
    by (cases "c \<le> length xs") (auto simp: MaxInt32_def min_def)
qed

lemma copied_kept:
  assumes "distinct (map fst inp)"
  shows "card (dom (attributeMapOf (copied inp))) = length (stored inp)"
proof (cases "inp = []")
  case True
  then show ?thesis
    by (simp add: copied_def copyAttributes_empty attributeMapOf_def stored_def)
next
  case False
  from copyAttributes_result[OF this, of None] obtain a where
    "copyAttributes None inp = Inr (Some a)"
    "dom (attributeMapOf (Some a)) = dom (attributeMapOf None) \<union> fst ` set (stored inp)"
    by blast
  then have "dom (attributeMapOf (copied inp)) = fst ` set (stored inp)"
    by (simp add: copied_def attributeMapOf_def)
  then show ?thesis using card_stored_keys[OF assms] by simp
qed

lemma copied_dropped:
  "(case copied inp of None \<Rightarrow> 0 | Some a \<Rightarrow> DroppedAttributesCount a)
     = of_nat (length (lengthRejected inp))"
proof (cases "inp = []")
  case True
  then show ?thesis
    by (simp add: copied_def copyAttributes_empty lengthRejected_def)
next
  case False
  from copyAttributes_result[OF this, of None] obtain a where
    "copyAttributes None inp = Inr (Some a)"
    "DroppedAttributesCount a = of_nat (length (lengthRejected inp))"
    by blast
  then show ?thesis by (simp add: copied_def)
qed

text \<open>
  The claim as the specification states it fails in two ways that the source intends.
  An attribute whose value is of another type is neither kept nor counted (C5, C10): the
  span \<^const>\<open>floatSpan\<close> has two attribute entries, the output keeps none and its dropped
  count is 1. And a dropped count is written through \<^verbatim>\<open>clip32\<close>: the span
  \<^const>\<open>hugeSpan\<close> has \<open>2\<^sup>3\<^sup>1 + 32\<close> annotations, the output keeps 32 and its dropped count is
  \<open>2\<^sup>3\<^sup>1 - 1\<close>. (The stack trace of \<^const>\<open>floatSpan\<close> is present and has no frame: the
  output has one frame, the zero frame that the iterator returns, and a dropped count of
  0.)
\<close>

theorem counts_counterexample:
  "(case protoFromSpanData (Some floatSpan) (bytes ''shop'') of
      Inr (Some sp) \<Rightarrow>
        sp_Attributes sp = Some \<lparr>AttributeMap = Some Map.empty, DroppedAttributesCount = 1\<rparr> \<and>
        sp_StackTrace sp = Some \<lparr>StackFrames =
          \<lparr>sf_Frame = [\<lparr>FunctionName = \<lparr>Value = [], TruncatedByteCount = 0\<rparr>,
                         FileName = \<lparr>Value = [], TruncatedByteCount = 0\<rparr>,
                         LineNumber = 0\<rparr>],
           DroppedFramesCount = 0\<rparr>\<rparr>
    | _ \<Rightarrow> False) \<and>
   length (s_Attributes floatSpan) = 2 \<and> s_StackTrace floatSpan = Some [] \<and>
   (case protoFromSpanData (Some hugeSpan) (bytes ''shop'') of
      Inr (Some sp) \<Rightarrow> keptAnnotations sp = 32 \<and> droppedAnnotations sp = 2147483647
    | _ \<Rightarrow> False) \<and>
   length (s_Annotations hugeSpan) = 2147483680"
proof -
  have t: "trunc (bytes ''charge'') 128 = Inr \<lparr>Value = bytes ''charge'', TruncatedByteCount = 0\<rparr>"
    by (simp add: trunc_def bytes_def)
  have a: "copyAttributes None [(bytes ''ratio'', IsOther), (replicate 130 0x6B, IsBool True)] =
      Inr (Some \<lparr>AttributeMap = Some Map.empty, DroppedAttributesCount = 1\<rparr>)"
    by (simp add: copyAttributes_def attributeValue_def)
  have te: "timeEventsOf [] [] = Inr (None, 0, 0)"
    by (simp add: timeEventsOf_def)
  have st: "stackTraceOf (Some []) = Inr (Some \<lparr>StackFrames =
          \<lparr>sf_Frame = [\<lparr>FunctionName = \<lparr>Value = [], TruncatedByteCount = 0\<rparr>,
                         FileName = \<lparr>Value = [], TruncatedByteCount = 0\<rparr>,
                         LineNumber = 0\<rparr>],
           DroppedFramesCount = 0\<rparr>\<rparr>)"
    by (simp add: stackTraceOf_def framesLoop.simps[of "[]"] zeroFrame_def trunc_def clip32_def
        MinInt32_def MaxInt32_def)
  have ln: "linksOf [] (bytes ''shop'') = Inr None"
    by (simp add: linksOf_def)
  have float: "(case protoFromSpanData (Some floatSpan) (bytes ''shop'') of
      Inr (Some sp) \<Rightarrow>
        sp_Attributes sp = Some \<lparr>AttributeMap = Some Map.empty, DroppedAttributesCount = 1\<rparr> \<and>
        sp_StackTrace sp = Some \<lparr>StackFrames =
          \<lparr>sf_Frame = [\<lparr>FunctionName = \<lparr>Value = [], TruncatedByteCount = 0\<rparr>,
                         FileName = \<lparr>Value = [], TruncatedByteCount = 0\<rparr>,
                         LineNumber = 0\<rparr>],
           DroppedFramesCount = 0\<rparr>\<rparr>
    | _ \<Rightarrow> False)"
    by (simp add: protoFromSpanData_def floatSpan_def Let_def t a te st ln)
  obtain sp where sp: "protoFromSpanData (Some hugeSpan) (bytes ''shop'') = Inr (Some sp)"
    using protoFromSpanData_Some by blast
  note r = span_readings[OF sp]
  have "keptAnnotations sp = 32"
    unfolding keptAnnotations_def r(1) isAnnotation_events by (simp add: hugeSpan_def)
  moreover have "droppedAnnotations sp = 2147483647"
    unfolding r(3) by (simp add: hugeSpan_def clip32_def MinInt32_def MaxInt32_def)
  ultimately have huge: "(case protoFromSpanData (Some hugeSpan) (bytes ''shop'') of
      Inr (Some sp) \<Rightarrow> keptAnnotations sp = 32 \<and> droppedAnnotations sp = 2147483647
    | _ \<Rightarrow> False)"
    by (simp add: sp)
  have "length (s_Attributes floatSpan) = 2" "s_StackTrace floatSpan = Some []"
    by (simp_all add: floatSpan_def)
  moreover have "length (s_Annotations hugeSpan) = 2147483680"
    by (simp add: hugeSpan_def)
  ultimately show ?thesis
    using float huge by (intro conjI)
qed

text \<open>
  C2, amended. For every input span record:
  \<^item> annotations and message events: the number of items kept in the output plus the
    dropped count equals the number of items in the input, as long as the dropped items
    are at most \<open>2\<^sup>3\<^sup>1 - 1\<close>; beyond that the dropped count stays at \<open>2\<^sup>3\<^sup>1 - 1\<close>;
  \<^item> attributes (the keys of the attribute map being, as in every map, pairwise
    distinct): the number of entries kept plus the number of entries rejected for key
    length equals the number of input entries whose value is a boolean, a 64-bit integer
    or a string, and the dropped-attribute count is that number of rejected entries (as
    an \<^verbatim>\<open>int32\<close>);
  \<^item> stack frames, for a stack trace with at least one frame: kept plus dropped equals
    the number of frames, with the same saturation; without a stack trace there is
    nothing kept and nothing dropped.
\<close>

theorem counts_accounted:
  "\<exists>sp. protoFromSpanData (Some s) projectID = Inr (Some sp) \<and>
     int (keptAnnotations sp) + sint (droppedAnnotations sp) =
       min (int (length (s_Annotations s))) (int (keptAnnotations sp) + 2147483647) \<and>
     int (keptMessageEvents sp) + sint (droppedMessageEvents sp) =
       min (int (length (s_MessageEvents s))) (int (keptMessageEvents sp) + 2147483647) \<and>
     droppedAttributes sp = of_nat (length (lengthRejected (s_Attributes s))) \<and>
     (distinct (map fst (s_Attributes s)) \<longrightarrow>
        keptAttributes sp + length (lengthRejected (s_Attributes s)) =
          length (filter (\<lambda>(key, v). supportedType v) (s_Attributes s))) \<and>
     (distinct (map fst (s_Attributes s)) \<and> length (lengthRejected (s_Attributes s)) < 2 ^ 31 \<longrightarrow>
        int (keptAttributes sp) + sint (droppedAttributes sp) =
          int (length (filter (\<lambda>(key, v). supportedType v) (s_Attributes s)))) \<and>
     (\<forall>frames. s_StackTrace s = Some frames \<and> frames \<noteq> [] \<longrightarrow>
        int (keptFrames sp) + sint (droppedFrames sp) =
          min (int (length frames)) (int (keptFrames sp) + 2147483647)) \<and>
     (s_StackTrace s = None \<longrightarrow> keptFrames sp = 0 \<and> droppedFrames sp = 0)"
proof -
  obtain sp where sp: "protoFromSpanData (Some s) projectID = Inr (Some sp)"
    using protoFromSpanData_Some by blast
  note r = span_readings[OF sp]
  have ka: "keptAnnotations sp = min (length (s_Annotations s)) 32"
    and km: "keptMessageEvents sp = min (length (s_MessageEvents s)) 128"
    unfolding keptAnnotations_def keptMessageEvents_def r(1) isAnnotation_events
    by simp_all
  have A: "int (keptAnnotations sp) + sint (droppedAnnotations sp) =
       min (int (length (s_Annotations s))) (int (keptAnnotations sp) + 2147483647)"
    unfolding r(3) ka by (rule kept_plus_dropped)
  have M: "int (keptMessageEvents sp) + sint (droppedMessageEvents sp) =
       min (int (length (s_MessageEvents s))) (int (keptMessageEvents sp) + 2147483647)"
    unfolding r(4) km by (rule kept_plus_dropped)
  have dat: "droppedAttributes sp = of_nat (length (lengthRejected (s_Attributes s)))"
    using copied_dropped[of "s_Attributes s"] by (simp add: droppedAttributes_def r(5))
  have T: "distinct (map fst (s_Attributes s)) \<longrightarrow>
        keptAttributes sp + length (lengthRejected (s_Attributes s)) =
          length (filter (\<lambda>(key, v). supportedType v) (s_Attributes s))"
  proof
    assume "distinct (map fst (s_Attributes s))"
    then have "keptAttributes sp = length (stored (s_Attributes s))"
      using copied_kept by (simp add: keptAttributes_def r(5))
    then show "keptAttributes sp + length (lengthRejected (s_Attributes s)) =
          length (filter (\<lambda>(key, v). supportedType v) (s_Attributes s))"
      by (simp only: length_stored_rejected)
  qed
  have T': "distinct (map fst (s_Attributes s)) \<and> length (lengthRejected (s_Attributes s)) < 2 ^ 31 \<longrightarrow>
        int (keptAttributes sp) + sint (droppedAttributes sp) =
          int (length (filter (\<lambda>(key, v). supportedType v) (s_Attributes s)))"
    using T by (auto simp: dat sint_of_nat_int32)
  have F: "\<forall>frames. s_StackTrace s = Some frames \<and> frames \<noteq> [] \<longrightarrow>
        int (keptFrames sp) + sint (droppedFrames sp) =
          min (int (length frames)) (int (keptFrames sp) + 2147483647)"
  proof (intro allI impI)
    fix frames assume f: "s_StackTrace s = Some frames \<and> frames \<noteq> []"
    with r(6) stackTraceOf_result(3)[of frames]
    have st: "sp_StackTrace sp = Some \<lparr>StackFrames =
       \<lparr>sf_Frame = map stackFrame (take 128 frames),
        DroppedFramesCount = clip32 (int (length (drop 128 frames)))\<rparr>\<rparr>"
      by simp
    have kf: "keptFrames sp = min (length frames) 128"
      by (simp add: keptFrames_def st)
    have df: "droppedFrames sp = clip32 (int (length (drop 128 frames)))"
      by (simp add: droppedFrames_def st)
    show "int (keptFrames sp) + sint (droppedFrames sp) =
          min (int (length frames)) (int (keptFrames sp) + 2147483647)"
      unfolding kf df by (rule kept_plus_dropped)
  qed
  have N: "s_StackTrace s = None \<longrightarrow> keptFrames sp = 0 \<and> droppedFrames sp = 0"
    using r(6) by (auto simp: stackTraceOf_result keptFrames_def droppedFrames_def)
  show ?thesis
    by (rule exI[of _ sp]) (intro conjI sp A M dat T T' F N)
qed

text \<open>
  The example span: \<open>32 + 8 = 40\<close> annotations, \<open>128 + 2 = 130\<close> message events,
  \<open>128 + 72 = 200\<close> stack frames. The span \<^const>\<open>floatSpan\<close>: \<open>0 + 1 = 1\<close> attribute of a
  supported type.
\<close>

theorem counts_accounted_witness:
  "distinct (map fst (s_Attributes exampleSpan)) \<and>
   (\<exists>sp. protoFromSpanData (Some exampleSpan) (bytes ''shop'') = Inr (Some sp) \<and>
      keptAnnotations sp = 32 \<and> int (keptAnnotations sp) + sint (droppedAnnotations sp) = 40 \<and>
      keptMessageEvents sp = 128 \<and>
      int (keptMessageEvents sp) + sint (droppedMessageEvents sp) = 130 \<and>
      keptFrames sp = 128 \<and> int (keptFrames sp) + sint (droppedFrames sp) = 200) \<and>
   distinct (map fst (s_Attributes floatSpan)) \<and>
   (\<exists>sp. protoFromSpanData (Some floatSpan) (bytes ''shop'') = Inr (Some sp) \<and>
      keptAttributes sp = 0 \<and> droppedAttributes sp = 1 \<and>
      length (filter (\<lambda>(key, v). supportedType v) (s_Attributes floatSpan)) = 1)"
proof -
  have d1: "distinct (map fst (s_Attributes exampleSpan))" by (simp add: exampleSpan_def)
  have "length (bytes ''ratio'') \<noteq> length (replicate 130 (0x6B :: byte))"
    by (simp add: bytes_def)
  then have "bytes ''ratio'' \<noteq> replicate 130 (0x6B :: byte)" by metis
  then have d2: "distinct (map fst (s_Attributes floatSpan))" by (simp add: floatSpan_def)
  from counts_accounted[of exampleSpan "bytes ''shop''"] obtain sp where sp:
    "protoFromSpanData (Some exampleSpan) (bytes ''shop'') = Inr (Some sp)"
    "int (keptAnnotations sp) + sint (droppedAnnotations sp) =
       min (int (length (s_Annotations exampleSpan))) (int (keptAnnotations sp) + 2147483647)"
    "int (keptMessageEvents sp) + sint (droppedMessageEvents sp) =
       min (int (length (s_MessageEvents exampleSpan))) (int (keptMessageEvents sp) + 2147483647)"
    "\<forall>frames. s_StackTrace exampleSpan = Some frames \<and> frames \<noteq> [] \<longrightarrow>
        int (keptFrames sp) + sint (droppedFrames sp) =
          min (int (length frames)) (int (keptFrames sp) + 2147483647)"
    by blast
  note r = span_readings[OF sp(1)]
  have k: "keptAnnotations sp = 32" "keptMessageEvents sp = 128"
    unfolding keptAnnotations_def keptMessageEvents_def r(1) isAnnotation_events
    by (simp_all add: exampleSpan_def)
  have "stackTraceOf (Some (replicate 200 exampleFrame)) =
      Inr (Some \<lparr>StackFrames = \<lparr>sf_Frame = map stackFrame (take 128 (replicate 200 exampleFrame)),
        DroppedFramesCount = clip32 (int (length (drop 128 (replicate 200 exampleFrame))))\<rparr>\<rparr>)"
    by (rule stackTraceOf_result(3)) simp
  with r(6) have "sp_StackTrace sp =
      Some \<lparr>StackFrames = \<lparr>sf_Frame = map stackFrame (take 128 (replicate 200 exampleFrame)),
        DroppedFramesCount = clip32 (int (length (drop 128 (replicate 200 exampleFrame))))\<rparr>\<rparr>"
    by (simp add: exampleSpan_def)
  then have kf: "keptFrames sp = 128"
    by (simp add: keptFrames_def)
  from sp(4) have "int (keptFrames sp) + sint (droppedFrames sp) =
      min (int (length (replicate 200 exampleFrame))) (int (keptFrames sp) + 2147483647)"
    by (simp add: exampleSpan_def)
  with kf have f: "int (keptFrames sp) + sint (droppedFrames sp) = 200" by simp
  from sp(2) k(1) have a: "int (keptAnnotations sp) + sint (droppedAnnotations sp) = 40"
    by (simp add: exampleSpan_def)
  from sp(3) k(2) have m: "int (keptMessageEvents sp) + sint (droppedMessageEvents sp) = 130"
    by (simp add: exampleSpan_def)
  have one: "(\<exists>sp. protoFromSpanData (Some exampleSpan) (bytes ''shop'') = Inr (Some sp) \<and>
      keptAnnotations sp = 32 \<and> int (keptAnnotations sp) + sint (droppedAnnotations sp) = 40 \<and>
      keptMessageEvents sp = 128 \<and>
      int (keptMessageEvents sp) + sint (droppedMessageEvents sp) = 130 \<and>
      keptFrames sp = 128 \<and> int (keptFrames sp) + sint (droppedFrames sp) = 200)"
    using sp(1) k kf a m f by blast
  from counts_accounted[of floatSpan "bytes ''shop''"] d2 obtain sp' where sp':
    "protoFromSpanData (Some floatSpan) (bytes ''shop'') = Inr (Some sp')"
    "keptAttributes sp' + length (lengthRejected (s_Attributes floatSpan)) =
       length (filter (\<lambda>(key, v). supportedType v) (s_Attributes floatSpan))"
    "droppedAttributes sp' = of_nat (length (lengthRejected (s_Attributes floatSpan)))"
    by blast
  have n: "length (lengthRejected (s_Attributes floatSpan)) = 1"
    "length (filter (\<lambda>(key, v). supportedType v) (s_Attributes floatSpan)) = 1"
    by (simp_all add: floatSpan_def lengthRejected_def supportedType_def bytes_def)
  with sp'(2,3) have "keptAttributes sp' = 0" "droppedAttributes sp' = 1" by simp_all
  with sp'(1) n(2) have two: "\<exists>sp. protoFromSpanData (Some floatSpan) (bytes ''shop'') = Inr (Some sp) \<and>
      keptAttributes sp = 0 \<and> droppedAttributes sp = 1 \<and>
      length (filter (\<lambda>(key, v). supportedType v) (s_Attributes floatSpan)) = 1"
    by blast
  from d1 one d2 two show ?thesis by blast
qed

subsection \<open>Claim C6\<close>

text \<open>
  C6. \<^verbatim>\<open>protoFromSpanData(s, projectID)\<close> returns \<^verbatim>\<open>nil\<close> if and only if \<open>s\<close> is \<^verbatim>\<open>nil\<close>; for
  every span that is present it returns a wire span, and it never panics, whatever the
  span contains.
\<close>

theorem protoFromSpanData_nil_iff:
  "protoFromSpanData None projectID = Inr None \<and>
   (\<exists>sp. protoFromSpanData (Some s) projectID = Inr (Some sp)) \<and>
   (protoFromSpanData s' projectID = Inr None \<longleftrightarrow> s' = None) \<and>
   (\<forall>e. protoFromSpanData s' projectID \<noteq> Inl e)"
proof -
  have "(protoFromSpanData s' projectID = Inr None \<longleftrightarrow> s' = None) \<and>
      (\<forall>e. protoFromSpanData s' projectID \<noteq> Inl e)"
  proof (cases s')
    case None
    then show ?thesis by (simp add: protoFromSpanData_nil)
  next
    case (Some a)
    obtain sp where "protoFromSpanData (Some a) projectID = Inr (Some sp)"
      using protoFromSpanData_Some by blast
    with Some show ?thesis by simp
  qed
  then show ?thesis
    using protoFromSpanData_Some by (simp add: protoFromSpanData_nil)
qed

theorem protoFromSpanData_nil_iff_witness:
  "protoFromSpanData None (bytes ''shop'') = Inr None \<and>
   (\<exists>sp. protoFromSpanData (Some floatSpan) (bytes ''shop'') = Inr (Some sp)) \<and>
   protoFromSpanData (Some exampleSpan) (bytes ''shop'') \<noteq> Inr None \<and>
   protoFromSpanData (Some exampleSpan) (bytes ''shop'') \<noteq> Inl SliceBoundsOutOfRange"
  using protoFromSpanData_nil_iff[of "bytes ''shop''" floatSpan "Some exampleSpan"] by simp

subsection \<open>Claim C9\<close>

text \<open>
  C9. \<^verbatim>\<open>copyAttributes\<close> leaves the output container untouched when the input mapping is
  empty; so, for every span whose attribute map is empty, the attributes container of the
  encoded output is absent (\<^verbatim>\<open>nil\<close>), not a container that is present and empty.
\<close>

theorem empty_attributes_absent:
  "copyAttributes out [] = Inr out \<and>
   (s_Attributes s = [] \<longrightarrow>
      (\<exists>sp. protoFromSpanData (Some s) projectID = Inr (Some sp) \<and> sp_Attributes sp = None))"
proof (intro conjI impI)
  show "copyAttributes out [] = Inr out" by (rule copyAttributes_empty)
next
  assume e: "s_Attributes s = []"
  obtain sp where sp: "protoFromSpanData (Some s) projectID = Inr (Some sp)"
    using protoFromSpanData_Some by blast
  from span_readings(5)[OF sp] e have "sp_Attributes sp = None"
    by (simp add: copied_def copyAttributes_empty)
  with sp show "\<exists>sp. protoFromSpanData (Some s) projectID = Inr (Some sp) \<and> sp_Attributes sp = None"
    by blast
qed

theorem empty_attributes_absent_witness:
  "copyAttributes (Some \<lparr>AttributeMap = None, DroppedAttributesCount = 3\<rparr>) [] =
     Inr (Some \<lparr>AttributeMap = None, DroppedAttributesCount = 3\<rparr>) \<and>
   s_Attributes exampleSpan = [] \<and>
   (\<exists>sp. protoFromSpanData (Some exampleSpan) (bytes ''shop'') = Inr (Some sp) \<and>
      sp_Attributes sp = None)"
proof -
  have e: "s_Attributes exampleSpan = []" by (simp add: exampleSpan_def)
  from empty_attributes_absent[of "Some \<lparr>AttributeMap = None, DroppedAttributesCount = 3\<rparr>"
      exampleSpan "bytes ''shop''"] e
  show ?thesis by blast
qed

end
